theory Spec2Isabelle
  imports Main "HOL-Library.Sublist"
begin

section \<open>Go string primitives used by natman\<close>

text \<open>
  Go strings are byte sequences; they are modelled as \<open>string\<close> (a list of 8-bit
  characters). The functions below follow the Go standard library on ASCII text, which
  is what rule text and IPv6 addresses consist of: \<open>Fields\<close> splits on the six ASCII
  white-space bytes and \<open>ToLower\<close> maps \<open>A\<close>..\<open>Z\<close> to \<open>a\<close>..\<open>z\<close>.
\<close>

definition colon :: char where
  "colon = CHR '':''"

definition slash :: char where
  "slash = CHR ''/''"

text \<open>\<open>strings.Contains(s, sub)\<close>.\<close>

fun Contains :: "string \<Rightarrow> string \<Rightarrow> bool" where
  "Contains [] sub = (sub = [])"
| "Contains (c # cs) sub = (prefix sub (c # cs) \<or> Contains cs sub)"

text \<open>
  \<open>strings.Split(s, sep)\<close> for a one-byte separator. The result is never empty
  (\<open>Split("", sep) = [""]\<close>), so the last case below does not arise.
\<close>

fun Split :: "string \<Rightarrow> char \<Rightarrow> string list" where
  "Split [] sep = [[]]"
| "Split (c # cs) sep =
     (if c = sep then [] # Split cs sep
      else (case Split cs sep of
              p # ps \<Rightarrow> (c # p) # ps
            | [] \<Rightarrow> [[c]]))"

text \<open>\<open>strings.Join(parts, sep)\<close>.\<close>

fun Join :: "string list \<Rightarrow> string \<Rightarrow> string" where
  "Join [] sep = []"
| "Join [p] sep = p"
| "Join (p # q # ps) sep = p @ sep @ Join (q # ps) sep"

text \<open>\<open>strings.TrimRight(s, ":")\<close>: drop every trailing colon.\<close>

definition TrimRightColon :: "string \<Rightarrow> string" where
  "TrimRightColon s = rev (dropWhile (\<lambda>c. c = colon) (rev s))"

text \<open>\<open>strings.HasPrefix\<close> is \<^const>\<open>prefix\<close>; \<open>strings.TrimPrefix(s, p)\<close>.\<close>

definition TrimPrefix :: "string \<Rightarrow> string \<Rightarrow> string" where
  "TrimPrefix s p = (if prefix p s then drop (length p) s else s)"

text \<open>\<open>strings.Count(s, "::")\<close>: the number of non-overlapping occurrences.\<close>

fun CountDoubleColon :: "string \<Rightarrow> nat" where
  "CountDoubleColon (a # b # cs) =
     (if a = colon \<and> b = colon then Suc (CountDoubleColon cs)
      else CountDoubleColon (b # cs))"
| "CountDoubleColon cs = 0"

section \<open>Package netmap6: mapping sets and the rule compiler\<close>

record RadvRoute =
  Preference :: string
  Metric :: int
  Lifetime :: int
  Prefix :: string

record MapPair =
  Public :: string
  Private :: string
  Radv :: "RadvRoute option"

record Netmap6 =
  Name :: string
  Enabled :: bool
  PfxPub :: string
  PfxPriv :: string
  Maps :: "MapPair list"

text \<open>
  \<open>SimpleConcatAddress\<close> (netmap6/main.go, 151-173). The receiver is not read.
  \<open>parts[1]\<close> exists whenever the address contains a slash.
\<close>

definition SimpleConcatAddress :: "string \<Rightarrow> string \<Rightarrow> string" where
  "SimpleConcatAddress addressPart pfx =
     (if pfx = [] then addressPart
      else
        let parts = Split addressPart slash;
            addrPart = (if Contains addressPart [slash] then parts ! 0 else addressPart);
            cidrSuffix = (if Contains addressPart [slash] then [slash] @ parts ! 1 else [])
        in TrimRightColon pfx @ [colon] @ addrPart @ cidrSuffix)"

text \<open>The two \<open>fmt.Sprintf\<close> templates of \<open>GenerateIp6tablesRules\<close>.\<close>

definition postroutingRule :: "string \<Rightarrow> string \<Rightarrow> string \<Rightarrow> string" where
  "postroutingRule interfaceName privateAddr publicAddr =
     ''ip6tables -t nat -A POSTROUTING -o '' @ interfaceName @ '' -s '' @ privateAddr
       @ '' -j NETMAP --to '' @ publicAddr"

definition preroutingRule :: "string \<Rightarrow> string \<Rightarrow> string \<Rightarrow> string" where
  "preroutingRule interfaceName publicAddr privateAddr =
     ''ip6tables -t nat -A PREROUTING -i '' @ interfaceName @ '' -d '' @ publicAddr
       @ '' -j NETMAP --to '' @ privateAddr"

text \<open>
  The loop of \<open>GenerateIp6tablesRules\<close> (117-143) over the remaining mappings, with the
  slice \<open>rules\<close> built so far.
\<close>

fun generateLoop :: "Netmap6 \<Rightarrow> string \<Rightarrow> MapPair list \<Rightarrow> string list \<Rightarrow> string list" where
  "generateLoop n interfaceName [] rules = rules"
| "generateLoop n interfaceName (mapping # rest) rules =
     (if Public mapping = [] \<or> Private mapping = []
      then generateLoop n interfaceName rest rules
      else
        let publicAddr = SimpleConcatAddress (Public mapping) (PfxPub n);
            privateAddr = SimpleConcatAddress (Private mapping) (PfxPriv n);
            postrouting = postroutingRule interfaceName privateAddr publicAddr;
            prerouting = preroutingRule interfaceName publicAddr privateAddr
        in generateLoop n interfaceName rest (rules @ [postrouting, prerouting]))"

definition GenerateIp6tablesRules :: "Netmap6 \<Rightarrow> string \<Rightarrow> string list" where
  "GenerateIp6tablesRules n interfaceName =
     (if \<not> Enabled n \<or> interfaceName = [] then []
      else generateLoop n interfaceName (Maps n) [])"

text \<open>The rules one mapping pair stands for, when it has both addresses.\<close>

definition pairRules :: "Netmap6 \<Rightarrow> string \<Rightarrow> MapPair \<Rightarrow> string list" where
  "pairRules n interfaceName mapping =
     [postroutingRule interfaceName
        (SimpleConcatAddress (Private mapping) (PfxPriv n))
        (SimpleConcatAddress (Public mapping) (PfxPub n)),
      preroutingRule interfaceName
        (SimpleConcatAddress (Public mapping) (PfxPub n))
        (SimpleConcatAddress (Private mapping) (PfxPriv n))]"

definition complete :: "MapPair \<Rightarrow> bool" where
  "complete mapping = (Public mapping \<noteq> [] \<and> Private mapping \<noteq> [])"

subsection \<open>Structural validation of addresses\<close>

text \<open>
  \<open>strconv.Atoi\<close> on a 64-bit platform: an optional sign, then at least one decimal
  digit and nothing else; a value outside the signed 64-bit range is an error.
\<close>

definition isDigit :: "char \<Rightarrow> bool" where
  "isDigit c = (48 \<le> (of_char c :: nat) \<and> (of_char c :: nat) \<le> 57)"

definition digitsValue :: "string \<Rightarrow> nat" where
  "digitsValue ds = foldl (\<lambda>n c. 10 * n + ((of_char c :: nat) - 48)) 0 ds"

definition Atoi :: "string \<Rightarrow> int option" where
  "Atoi s =
     (let signed = (s \<noteq> [] \<and> (hd s = CHR ''-'' \<or> hd s = CHR ''+''));
          ds = (if signed then tl s else s)
      in if ds = [] \<or> \<not> list_all isDigit ds then None
         else
           let v = (if signed \<and> hd s = CHR ''-'' then - int (digitsValue ds)
                    else int (digitsValue ds))
           in if v < - (2 ^ 63) \<or> 2 ^ 63 - 1 < v then None else Some v)"

text \<open>The character test of lines 286-288: a hexadecimal digit of either case.\<close>

definition isHex :: "char \<Rightarrow> bool" where
  "isHex c =
     ((48 \<le> (of_char c :: nat) \<and> (of_char c :: nat) \<le> 57) \<or>
      (97 \<le> (of_char c :: nat) \<and> (of_char c :: nat) \<le> 102) \<or>
      (65 \<le> (of_char c :: nat) \<and> (of_char c :: nat) \<le> 70))"

text \<open>The counting loop of lines 252-257.\<close>

fun nonEmptyCount :: "string list \<Rightarrow> nat \<Rightarrow> nat" where
  "nonEmptyCount [] n = n"
| "nonEmptyCount (seg # rest) n =
     (if seg \<noteq> [] then nonEmptyCount rest (Suc n) else nonEmptyCount rest n)"

text \<open>
  The segment loop of lines 274-293. The source ranges over the runes of a segment; a
  rune is a hexadecimal digit only if it is a single ASCII byte, so testing every byte
  gives the same answer.
\<close>

fun checkSegments :: "string list \<Rightarrow> bool" where
  "checkSegments [] = True"
| "checkSegments (segment # rest) =
     (if segment = [] then checkSegments rest
      else if 4 < length segment then False
      else if \<not> list_all isHex segment then False
      else checkSegments rest)"

definition isValidIPv6AddressFormat :: "string \<Rightarrow> bool" where
  "isValidIPv6AddressFormat ipPart =
     (if \<not> Contains ipPart '':'' then False
      else if Contains ipPart '':::'' then False
      else if 1 < CountDoubleColon ipPart then False
      else
        let segments = Split ipPart colon in
        if Contains ipPart ''::''
        then (if 7 < nonEmptyCount segments 0 then False else checkSegments segments)
        else (if length segments \<noteq> 8 then False else checkSegments segments))"

definition isValidIPv6Address :: "string \<Rightarrow> bool" where
  "isValidIPv6Address addr =
     (if addr = [] then False
      else if Contains addr [slash]
      then
        let parts = Split addr slash in
        if length parts \<noteq> 2 then False
        else (case Atoi (parts ! 1) of
                None \<Rightarrow> False
              | Some pl \<Rightarrow>
                  if pl < 0 \<or> 128 < pl then False
                  else isValidIPv6AddressFormat (parts ! 0))
      else isValidIPv6AddressFormat addr)"

text \<open>\<open>GetRadvRoutes\<close> (300-326): the loop over the mappings, then the function.\<close>

fun radvLoop :: "Netmap6 \<Rightarrow> MapPair list \<Rightarrow> RadvRoute list \<Rightarrow> RadvRoute list" where
  "radvLoop n [] routes = routes"
| "radvLoop n (mapping # rest) routes =
     (case Radv mapping of
        None \<Rightarrow> radvLoop n rest routes
      | Some radv \<Rightarrow>
          let publicAddr = SimpleConcatAddress (Public mapping) (PfxPub n) in
          if isValidIPv6Address publicAddr
          then radvLoop n rest
                 (routes @ [\<lparr>Preference = Preference radv, Metric = Metric radv,
                             Lifetime = Lifetime radv, Prefix = publicAddr\<rparr>])
          else radvLoop n rest routes)"

definition GetRadvRoutes :: "Netmap6 \<Rightarrow> RadvRoute list" where
  "GetRadvRoutes n = (if \<not> Enabled n then [] else radvLoop n (Maps n) [])"

text \<open>
  The validity condition as the specification words it (section 4.4): at least one
  separator, at most one compressed-zero marker, at most 8 segments once the marker is
  counted as one group, every segment at most 4 hexadecimal characters, and a CIDR
  suffix that is a number from 0 to 128.
\<close>

definition specStructurallyValid :: "string \<Rightarrow> bool" where
  "specStructurallyValid addr =
     (let ipPart = takeWhile (\<lambda>c. c \<noteq> slash) addr;
          segments = Split ipPart colon;
          resolved = (if Contains ipPart ''::''
                      then Suc (length (filter (\<lambda>seg. seg \<noteq> []) segments))
                      else length segments)
      in colon \<in> set ipPart \<and> CountDoubleColon ipPart \<le> 1 \<and> resolved \<le> 8 \<and>
         list_all (\<lambda>seg. length seg \<le> 4 \<and> list_all isHex seg) segments \<and>
         (if slash \<in> set addr
          then (case Atoi (tl (dropWhile (\<lambda>c. c \<noteq> slash) addr)) of
                  None \<Rightarrow> False | Some pl \<Rightarrow> 0 \<le> pl \<and> pl \<le> 128)
          else True))"

section \<open>Package main of config-maker: common-prefix inference\<close>

record NetmapMapping =
  mPublic :: string
  mPrivate :: string

text \<open>Lines 666-669 and 684-687: drop the CIDR notation.\<close>

definition cleanAddr :: "string \<Rightarrow> string" where
  "cleanAddr addr = (if Contains addr [slash] then Split addr slash ! 0 else addr)"

text \<open>
  The inner loop (683-700) over the remaining addresses: it returns \<open>allMatch\<close> and
  \<open>hasReduction\<close>, and stops at the first address that lacks the candidate prefix.
\<close>

fun checkCandidate :: "string \<Rightarrow> string list \<Rightarrow> bool \<Rightarrow> bool \<times> bool" where
  "checkCandidate candidatePrefix [] hasReduction = (True, hasReduction)"
| "checkCandidate candidatePrefix (addr # rest) hasReduction =
     (let clean = cleanAddr addr in
      if \<not> prefix candidatePrefix clean then (False, hasReduction)
      else
        let remaining = TrimPrefix (TrimPrefix clean candidatePrefix) [colon] in
        checkCandidate candidatePrefix rest
          (if 0 < length remaining \<and> remaining \<noteq> clean then True else hasReduction))"

text \<open>The outer loop (675-707), \<open>prefixLen\<close> counting down to 1.\<close>

fun tryPrefixLen :: "string list \<Rightarrow> string list \<Rightarrow> nat \<Rightarrow> string" where
  "tryPrefixLen segments addresses 0 = []"
| "tryPrefixLen segments addresses (Suc k) =
     (if Suc k \<le> length segments
      then
        let candidatePrefix = Join (take (Suc k) segments) [colon] @ [colon] in
        (case checkCandidate candidatePrefix addresses False of
           (allMatch, hasReduction) \<Rightarrow>
             if allMatch \<and> hasReduction then candidatePrefix
             else tryPrefixLen segments addresses k)
      else tryPrefixLen segments addresses k)"

definition findCommonIPv6Prefix :: "NetmapMapping list \<Rightarrow> bool \<Rightarrow> string" where
  "findCommonIPv6Prefix mappings isPublic =
     (if mappings = [] then []
      else
        let addresses = map (\<lambda>mapping. if isPublic then mPublic mapping else mPrivate mapping)
                          mappings;
            firstAddr = cleanAddr (hd addresses);
            segments = Split firstAddr colon
        in tryPrefixLen segments addresses 3)"

text \<open>
  What the inference is described by: the candidate of \<open>k\<close> segments of the first
  address, what stripping a candidate leaves of an address (the candidate and then one
  further leading colon are removed, as in lines 695-696), and the acceptance condition.
\<close>

definition candidate :: "string list \<Rightarrow> nat \<Rightarrow> string" where
  "candidate segments k = Join (take k segments) [colon] @ [colon]"

definition remainder :: "string \<Rightarrow> string \<Rightarrow> string" where
  "remainder cand a = TrimPrefix (TrimPrefix a cand) [colon]"

definition accepted :: "string list \<Rightarrow> string list \<Rightarrow> nat \<Rightarrow> bool" where
  "accepted segments addrs k =
     (k \<le> length segments \<and>
      list_all (\<lambda>a. prefix (candidate segments k) a) addrs \<and>
      list_ex (\<lambda>a. remainder (candidate segments k) a \<noteq> [] \<and>
                   length (remainder (candidate segments k) a) < length a) addrs)"

section \<open>More Go string primitives\<close>

text \<open>
  The ASCII white space of \<open>strings.Fields\<close>. On text with bytes outside ASCII Go
  also splits at Unicode white space (such as U+0085 and U+00A0); the model covers ASCII
  rule text, and the general theorems below do not depend on which characters are white
  space.
\<close>

definition isSpace :: "char \<Rightarrow> bool" where
  "isSpace c =
     (c = CHR '' '' \<or> c = CHR 0x09 \<or> c = CHR 0x0A \<or> c = CHR 0x0B \<or> c = CHR 0x0C \<or>
      c = CHR 0x0D)"

text \<open>
  \<open>strings.Fields(s)\<close>: the maximal runs of non-space characters. After a non-space
  character that is followed by another one, the remaining text starts with a field, so
  the last case below does not arise.
\<close>

fun Fields :: "string \<Rightarrow> string list" where
  "Fields [] = []"
| "Fields (c # cs) =
     (if isSpace c then Fields cs
      else if cs = [] \<or> isSpace (hd cs) then [c] # Fields cs
      else (case Fields cs of
              w # ws \<Rightarrow> (c # w) # ws
            | [] \<Rightarrow> [[c]]))"

text \<open>
  \<open>strings.ToLower(s)\<close> on ASCII text: \<open>A\<close>..\<open>Z\<close> are mapped to lower
  case. Go also lower-cases letters outside ASCII; the general theorems below do not
  depend on the mapping.
\<close>

definition toLowerChar :: "char \<Rightarrow> char" where
  "toLowerChar c =
     (if 65 \<le> (of_char c :: nat) \<and> (of_char c :: nat) \<le> 90
      then char_of ((of_char c :: nat) + 32) else c)"

definition ToLower :: "string \<Rightarrow> string" where
  "ToLower s = map toLowerChar s"

text \<open>\<open>strings.Replace(s, old, new, 1)\<close>: the first occurrence of \<open>old\<close> replaced.\<close>

fun ReplaceFirst :: "string \<Rightarrow> string \<Rightarrow> string \<Rightarrow> string" where
  "ReplaceFirst [] old new = (if old = [] then new else [])"
| "ReplaceFirst (c # cs) old new =
     (if prefix old (c # cs) then new @ drop (length old) (c # cs)
      else c # ReplaceFirst cs old new)"

section \<open>External commands\<close>

text \<open>
  Errors are values. \<open>EmptyRule\<close> and \<open>CommandFailed\<close> are the two errors of
  \<open>executeIp6tablesRule\<close> and \<open>executeIptablesRule\<close>; \<open>AddRuleFailed\<close> is the
  error of \<open>applyRuleChanges\<close> (it names the rule and wraps the error of the command);
  \<open>AddNetmapRulesFailed\<close> is the error of \<open>ApplyNetmapRules\<close> (it names the
  number of failed rules and the number of rules to add); \<open>IndexOutOfRange\<close> is the
  run-time panic of an index past the end of a slice.
\<close>

datatype error =
    EmptyRule
  | CommandFailed string
  | AddRuleFailed string error
  | AddNetmapRulesFailed nat nat
  | IndexOutOfRange

text \<open>What the appliers print, debug output apart.\<close>

datatype message =
    RemoveWarning string error
  | AddError string error
  | NoValidRules

text \<open>
  The host: given the argument vectors of the commands run so far and the argument
  vector of a command, \<open>None\<close> when the command exits with status 0 and the text of the
  failure otherwise. The world records the commands run and the messages printed.
\<close>

type_synonym host = "string list list \<Rightarrow> string list \<Rightarrow> string option"

record world =
  invoked :: "string list list"
  printed :: "message list"

text \<open>\<open>executeIp6tablesRule\<close> (netmap manager, 485-501).\<close>

definition executeIp6tablesRule :: "host \<Rightarrow> world \<Rightarrow> string \<Rightarrow> world \<times> error option" where
  "executeIp6tablesRule h w rule =
     (let parts = Fields rule in
      if length parts = 0 then (w, Some EmptyRule)
      else (w\<lparr>invoked := invoked w @ [parts]\<rparr>,
            map_option CommandFailed (h (invoked w) parts)))"

text \<open>\<open>executeIptablesRule\<close> (NAT manager, 297-310).\<close>

definition executeIptablesRule :: "host \<Rightarrow> world \<Rightarrow> string \<Rightarrow> world \<times> error option" where
  "executeIptablesRule h w rule =
     (let parts = Fields rule in
      if length parts = 0 then (w, Some EmptyRule)
      else (w\<lparr>invoked := invoked w @ [parts]\<rparr>,
            map_option CommandFailed (h (invoked w) parts)))"

section \<open>Package netmapmanager\<close>

record parsedRule =
  pChain :: string
  pIface :: string
  pDirection :: string
  pSource :: string
  pDest :: string
  pTarget :: string
  pToAddr :: string

text \<open>
  The loop of \<open>normalizeRule\<close> (185-218) at \<open>part\<close>, with \<open>rest\<close> the parts after
  it: \<open>i+1 < len(parts)\<close> holds exactly when \<open>rest\<close> is not empty, and then
  \<open>parts[i+1]\<close> is its head. The loop does not skip the argument of an option.
\<close>

fun parseParts :: "string list \<Rightarrow> parsedRule \<Rightarrow> parsedRule" where
  "parseParts [] f = f"
| "parseParts (part # rest) f =
     parseParts rest
       (if rest = [] then f
        else if part = ''-A'' then f\<lparr>pChain := hd rest\<rparr>
        else if part = ''-i'' then f\<lparr>pIface := hd rest, pDirection := ''input''\<rparr>
        else if part = ''-o'' then f\<lparr>pIface := hd rest, pDirection := ''output''\<rparr>
        else if part = ''-s'' then f\<lparr>pSource := hd rest\<rparr>
        else if part = ''-d'' then f\<lparr>pDest := hd rest\<rparr>
        else if part = ''-j'' then f\<lparr>pTarget := hd rest\<rparr>
        else if part = ''--to'' then f\<lparr>pToAddr := hd rest\<rparr>
        else f)"

definition noFields :: parsedRule where
  "noFields = \<lparr>pChain = [], pIface = [], pDirection = [], pSource = [], pDest = [],
               pTarget = [], pToAddr = []\<rparr>"

text \<open>The \<open>fmt.Sprintf\<close> of lines 222-229.\<close>

definition formatKey :: "parsedRule \<Rightarrow> string" where
  "formatKey f =
     ToLower (pChain f) @ ''|'' @ pDirection f @ ''|'' @ pIface f @ ''|'' @ pSource f @ ''|''
       @ pDest f @ ''|'' @ ToLower (pTarget f) @ ''|'' @ pToAddr f"

text \<open>\<open>normalizeRule\<close> of the netmap manager (175-230).\<close>

definition normalizeRule :: "string \<Rightarrow> string" where
  "normalizeRule rule =
     (let parts = Fields rule in
      if length parts < 6 then rule
      else formatKey (parseParts parts noFields))"

fun normalizeRules :: "string list \<Rightarrow> string list" where
  "normalizeRules [] = []"
| "normalizeRules (rule # rules) = normalizeRule rule # normalizeRules rules"

text \<open>A Go \<open>map[string]bool\<close> used as a set: absent keys read as \<open>false\<close>.\<close>

definition makeSet :: "string list \<Rightarrow> string \<Rightarrow> bool" where
  "makeSet items = foldl (\<lambda>itemSet item. itemSet(item := True)) (\<lambda>_. False) items"

text \<open>
  The loop of \<open>smartDifference\<close> (241-252) at index \<open>i\<close>. In the branch of a rule
  that exists, \<open>originalSlice1[i]\<close> is evaluated as an argument of \<open>DebugPrint\<close>
  without a bounds check.
\<close>

fun smartLoop ::
  "string list \<Rightarrow> (string \<Rightarrow> bool) \<Rightarrow> nat \<Rightarrow> string list \<Rightarrow> string list \<Rightarrow> error + string list"
where
  "smartLoop originalSlice1 normalizedSet i [] result = Inr result"
| "smartLoop originalSlice1 normalizedSet i (item # rest) result =
     (if \<not> normalizedSet item
      then (if i < length originalSlice1
            then smartLoop originalSlice1 normalizedSet (Suc i) rest
                   (result @ [originalSlice1 ! i])
            else smartLoop originalSlice1 normalizedSet (Suc i) rest result)
      else (if i < length originalSlice1
            then smartLoop originalSlice1 normalizedSet (Suc i) rest result
            else Inl IndexOutOfRange))"

definition smartDifference ::
  "string list \<Rightarrow> string list \<Rightarrow> string list \<Rightarrow> string list \<Rightarrow> error + string list"
where
  "smartDifference originalSlice1 originalSlice2 normalizedSlice1 normalizedSlice2 =
     smartLoop originalSlice1 (makeSet normalizedSlice2) 0 normalizedSlice1 []"

text \<open>The removal loop of \<open>ApplyNetmapRules\<close> (137-144).\<close>

fun removeOldRules :: "host \<Rightarrow> world \<Rightarrow> string list \<Rightarrow> world" where
  "removeOldRules h w [] = w"
| "removeOldRules h w (rule # rest) =
     (let removeRule = ReplaceFirst rule ''-A '' ''-D '' in
      case executeIp6tablesRule h w removeRule of
        (w', Some err) \<Rightarrow>
          removeOldRules h (w'\<lparr>printed := printed w' @ [RemoveWarning removeRule err]\<rparr>) rest
      | (w', None) \<Rightarrow> removeOldRules h w' rest)"

text \<open>The addition loop (147-155), with the slice \<open>failedRules\<close>.\<close>

fun addNewRules :: "host \<Rightarrow> world \<Rightarrow> string list \<Rightarrow> string list \<Rightarrow> world \<times> string list" where
  "addNewRules h w [] failedRules = (w, failedRules)"
| "addNewRules h w (rule # rest) failedRules =
     (case executeIp6tablesRule h w rule of
        (w', Some err) \<Rightarrow>
          addNewRules h (w'\<lparr>printed := printed w' @ [AddError rule err]\<rparr>) rest
            (failedRules @ [rule])
      | (w', None) \<Rightarrow> addNewRules h w' rest failedRules)"

text \<open>Lines 136-162: the executor of the netmap manager.\<close>

definition executeNetmapChanges ::
  "host \<Rightarrow> world \<Rightarrow> string list \<Rightarrow> string list \<Rightarrow> world \<times> error option"
where
  "executeNetmapChanges h w rulesToRemove rulesToAdd =
     (let w1 = removeOldRules h w rulesToRemove in
      case addNewRules h w1 rulesToAdd [] of
        (w2, failedRules) \<Rightarrow>
          if 0 < length failedRules
          then (w2, Some (AddNetmapRulesFailed (length failedRules) (length rulesToAdd)))
          else (w2, None))"

text \<open>
  \<open>ApplyNetmapRules\<close> from line 102 on. What comes before (the scan of the live
  rules, and the generation of the new rules over the links, which may run fallback
  commands) is given: the current rules, the new rules, and the world they leave.
\<close>

definition ApplyNetmapRules ::
  "host \<Rightarrow> world \<Rightarrow> string list \<Rightarrow> string list \<Rightarrow> world \<times> error option"
where
  "ApplyNetmapRules h w currentRules newRules =
     (if length newRules = 0 then (w\<lparr>printed := printed w @ [NoValidRules]\<rparr>, None)
      else
        let normalizedCurrent = normalizeRules currentRules;
            normalizedNew = normalizeRules newRules
        in case smartDifference newRules currentRules normalizedNew normalizedCurrent of
             Inl panic \<Rightarrow> (w, Some panic)
           | Inr rulesToAdd \<Rightarrow>
               (case smartDifference currentRules newRules normalizedCurrent normalizedNew of
                  Inl panic \<Rightarrow> (w, Some panic)
                | Inr rulesToRemove \<Rightarrow> executeNetmapChanges h w rulesToRemove rulesToAdd))"

section \<open>Package natmanager\<close>

text \<open>\<open>normalizeRule\<close> of the NAT manager (280-295).\<close>

definition normalizePart :: "string \<Rightarrow> string" where
  "normalizePart part =
     (if part = ''0.0.0.0/0'' \<or> part = ''anywhere'' then ''0.0.0.0/0''
      else if part = ''::/0'' then ''::/0''
      else part)"

definition natNormalizeRule :: "string \<Rightarrow> string" where
  "natNormalizeRule rule = Join (map normalizePart (Fields rule)) '' ''"

text \<open>\<open>difference\<close> (312-326).\<close>

fun differenceLoop :: "(string \<Rightarrow> bool) \<Rightarrow> string list \<Rightarrow> string list \<Rightarrow> string list" where
  "differenceLoop itemSet [] result = result"
| "differenceLoop itemSet (item # rest) result =
     (if \<not> itemSet item then differenceLoop itemSet rest (result @ [item])
      else differenceLoop itemSet rest result)"

definition difference :: "string list \<Rightarrow> string list \<Rightarrow> string list" where
  "difference slice1 slice2 = differenceLoop (makeSet slice2) slice1 []"

text \<open>
  The maps from a normalized rule back to its text (246-253): a later rule with the
  same key overwrites an earlier one.
\<close>

definition backMap :: "string list \<Rightarrow> string list \<Rightarrow> string \<rightharpoonup> string" where
  "backMap normalized rules =
     foldl (\<lambda>m (norm, rule). m(norm \<mapsto> rule)) Map.empty (zip normalized rules)"

text \<open>The removal loop (256-265); the warning is printed unless \<open>QuietMode\<close> is set.\<close>

fun natRemoveLoop ::
  "bool \<Rightarrow> host \<Rightarrow> world \<Rightarrow> (string \<rightharpoonup> string) \<Rightarrow> string list \<Rightarrow> world"
where
  "natRemoveLoop QuietMode h w removeMap [] = w"
| "natRemoveLoop QuietMode h w removeMap (normRule # rest) =
     (case removeMap normRule of
        None \<Rightarrow> natRemoveLoop QuietMode h w removeMap rest
      | Some origRule \<Rightarrow>
          let removeRule = ReplaceFirst origRule ''-A '' ''-D '' in
          (case executeIptablesRule h w removeRule of
             (w', Some err) \<Rightarrow>
               natRemoveLoop QuietMode h
                 (if \<not> QuietMode
                  then w'\<lparr>printed := printed w' @ [RemoveWarning removeRule err]\<rparr>
                  else w')
                 removeMap rest
           | (w', None) \<Rightarrow> natRemoveLoop QuietMode h w' removeMap rest))"

text \<open>The addition loop (268-274): it returns at the first failure.\<close>

fun natAddLoop ::
  "host \<Rightarrow> world \<Rightarrow> (string \<rightharpoonup> string) \<Rightarrow> string list \<Rightarrow> world \<times> error option"
where
  "natAddLoop h w addMap [] = (w, None)"
| "natAddLoop h w addMap (normRule # rest) =
     (case addMap normRule of
        None \<Rightarrow> natAddLoop h w addMap rest
      | Some origRule \<Rightarrow>
          (case executeIptablesRule h w origRule of
             (w', Some err) \<Rightarrow> (w', Some (AddRuleFailed origRule err))
           | (w', None) \<Rightarrow> natAddLoop h w' addMap rest))"

definition applyRuleChanges ::
  "bool \<Rightarrow> host \<Rightarrow> world \<Rightarrow> string list \<Rightarrow> string list \<Rightarrow> world \<times> error option"
where
  "applyRuleChanges QuietMode h w currentRules newRules =
     (let normalizedCurrent = map natNormalizeRule currentRules;
          normalizedNew = map natNormalizeRule newRules;
          rulesToAdd = difference normalizedNew normalizedCurrent;
          rulesToRemove = difference normalizedCurrent normalizedNew;
          addMap = backMap normalizedNew newRules;
          removeMap = backMap normalizedCurrent currentRules;
          w1 = natRemoveLoop QuietMode h w removeMap rulesToRemove
      in natAddLoop h w1 addMap rulesToAdd)"

section \<open>Notions used to state the properties of the appliers\<close>

text \<open>The delete form of a rule: its first \<open>-A \<close> rewritten to \<open>-D \<close>.\<close>

definition deleteForm :: "string \<Rightarrow> string" where
  "deleteForm rule = ReplaceFirst rule ''-A '' ''-D ''"

text \<open>
  The argument vectors of the commands that a list of rules gives rise to: a rule
  without fields is refused before any command is run.
\<close>

definition argvs :: "string list \<Rightarrow> string list list" where
  "argvs rules = filter (\<lambda>parts. parts \<noteq> []) (map Fields rules)"

text \<open>
  The outcome of each rule of a list when all of them are executed in order, starting
  after the commands \<open>hist\<close>.
\<close>

fun outcomes :: "host \<Rightarrow> string list list \<Rightarrow> string list \<Rightarrow> error option list" where
  "outcomes h hist [] = []"
| "outcomes h hist (rule # rest) =
     (if Fields rule = [] then Some EmptyRule # outcomes h hist rest
      else map_option CommandFailed (h hist (Fields rule))
             # outcomes h (hist @ [Fields rule]) rest)"

text \<open>The rules that failed, each with its error.\<close>

definition failures :: "string list \<Rightarrow> error option list \<Rightarrow> (string \<times> error) list" where
  "failures rules outs =
     List.map_filter (\<lambda>(rule, out). map_option (Pair rule) out) (zip rules outs)"

text \<open>The last rule of a list that has a given key.\<close>

definition lastWithKey :: "(string \<Rightarrow> string) \<Rightarrow> string list \<Rightarrow> string \<Rightarrow> string option" where
  "lastWithKey key rules k =
     (case filter (\<lambda>rule. key rule = k) rules of [] \<Rightarrow> None | r # rs \<Rightarrow> Some (last (r # rs)))"

text \<open>
  The tuple that the specification says the key is made of (section 4.3): chain and
  target without regard to case, direction, interface, target argument, and the single
  address that matters for the direction: the destination of an inbound rule, the
  source of an outbound rule.
\<close>

definition specTuple :: "parsedRule \<Rightarrow> string \<times> string \<times> string \<times> string \<times> string \<times> string" where
  "specTuple f =
     (ToLower (pChain f), pDirection f, pIface f,
      (if pDirection f = ''input'' then pDest f else pSource f),
      ToLower (pTarget f), pToAddr f)"

section \<open>Facts about the string primitives\<close>

lemma Split_nonempty: "Split s sep \<noteq> []"
  by (cases s) (auto split: list.splits)

lemma Split_Cons [simp]:
  "Split (c # cs) sep =
     (if c = sep then [] # Split cs sep
      else (c # hd (Split cs sep)) # tl (Split cs sep))"
  using Split_nonempty [of cs sep] by (auto split: list.splits)

declare Split.simps(2) [simp del]

lemma hd_Split: "hd (Split s sep) = takeWhile (\<lambda>c. c \<noteq> sep) s"
  by (induction s) auto

lemma Contains_single: "Contains s [c] = (c \<in> set s)"
  by (induction s) auto

lemma tl_Split:
  "tl (Split s sep) = (case dropWhile (\<lambda>c. c \<noteq> sep) s of [] \<Rightarrow> [] | _ # r \<Rightarrow> Split r sep)"
  by (induction s) auto

lemma Split_second:
  "sep \<in> set s \<Longrightarrow>
   Split s sep ! 1 = takeWhile (\<lambda>c. c \<noteq> sep) (tl (dropWhile (\<lambda>c. c \<noteq> sep) s))"
proof -
  assume mem: "sep \<in> set s"
  then obtain r where r: "dropWhile (\<lambda>c. c \<noteq> sep) s = sep # r"
    by (metis (mono_tags, lifting) dropWhile_eq_Nil_conv hd_dropWhile list.exhaust_sel)
  have "Split s sep ! 1 = hd (tl (Split s sep))"
    using Split_nonempty [of s sep] r tl_Split [of s sep] Split_nonempty [of r sep]
    by (cases "Split s sep") (auto simp: nth_Cons' hd_conv_nth)
  also have "\<dots> = hd (Split r sep)"
    by (simp add: tl_Split r)
  finally show ?thesis
    by (simp add: hd_Split r)
qed

section \<open>The rule compiler\<close>

lemma generateLoop_acc:
  "generateLoop n i ms rules =
     rules @ concat (map (\<lambda>m. if complete m then pairRules n i m else []) ms)"
  by (induction ms arbitrary: rules) (auto simp: complete_def pairRules_def Let_def)

lemma GenerateIp6tablesRules_concat:
  "GenerateIp6tablesRules n i =
     (if Enabled n \<and> i \<noteq> []
      then concat (map (\<lambda>m. if complete m then pairRules n i m else []) (Maps n))
      else [])"
  by (simp add: GenerateIp6tablesRules_def generateLoop_acc)

lemma length_concat_pairs:
  "length (concat (map (\<lambda>m. if complete m then pairRules n i m else []) ms)) =
     2 * length (filter complete ms)"
  by (induction ms) (auto simp: pairRules_def)

lemma SimpleConcatAddress_no_prefix: "SimpleConcatAddress a [] = a"
  by (simp add: SimpleConcatAddress_def)

lemma SimpleConcatAddress_prefix:
  "SimpleConcatAddress a (p # ps) =
     rev (dropWhile (\<lambda>c. c = CHR '':'') (rev (p # ps))) @ '':''
       @ takeWhile (\<lambda>c. c \<noteq> CHR ''/'') a
       @ (if CHR ''/'' \<in> set a
          then ''/'' @ takeWhile (\<lambda>c. c \<noteq> CHR ''/'') (tl (dropWhile (\<lambda>c. c \<noteq> CHR ''/'') a))
          else [])"
proof (cases "CHR ''/'' \<in> set a")
  case True
  have "Split a (CHR ''/'') ! 0 = takeWhile (\<lambda>c. c \<noteq> CHR ''/'') a"
    using Split_nonempty [of a "CHR ''/''"] hd_Split [of a "CHR ''/''"]
    by (simp add: hd_conv_nth)
  with True Split_second [OF True] show ?thesis
    by (simp add: SimpleConcatAddress_def Let_def Contains_single slash_def colon_def
        TrimRightColon_def)
next
  case False
  then have "takeWhile (\<lambda>c. c \<noteq> CHR ''/'') a = a"
    by (induction a) auto
  with False show ?thesis
    by (simp add: SimpleConcatAddress_def Let_def Contains_single slash_def colon_def
        TrimRightColon_def del: takeWhile_eq_all_conv)
qed

lemma SimpleConcatAddress_example:
  "SimpleConcatAddress ''20:0:0/96'' ''2001:db8:1::'' = ''2001:db8:1:20:0:0/96''"
  by (simp add: SimpleConcatAddress_def Let_def slash_def colon_def TrimRightColon_def)

text \<open>
  C5. Address expansion: with an empty prefix the address is returned unchanged;
  otherwise the result is the prefix without its trailing colons, one colon, the
  address body (the text before the first slash) and the CIDR suffix (the slash and the
  text up to the next slash, when the address has a slash). The result is a function of
  the two arguments alone, and expanding \<open>20:0:0/96\<close> under \<open>2001:db8:1::\<close>
  gives \<open>2001:db8:1:20:0:0/96\<close>, the \<open>/96\<close> kept.
\<close>

theorem C5_SimpleConcatAddress:
  "SimpleConcatAddress a [] = a \<and>
   SimpleConcatAddress a (p # ps) =
     rev (dropWhile (\<lambda>c. c = CHR '':'') (rev (p # ps))) @ '':''
       @ takeWhile (\<lambda>c. c \<noteq> CHR ''/'') a
       @ (if CHR ''/'' \<in> set a
          then ''/'' @ takeWhile (\<lambda>c. c \<noteq> CHR ''/'') (tl (dropWhile (\<lambda>c. c \<noteq> CHR ''/'') a))
          else []) \<and>
   SimpleConcatAddress ''20:0:0/96'' ''2001:db8:1::'' = ''2001:db8:1:20:0:0/96''"
  using SimpleConcatAddress_no_prefix [of a] SimpleConcatAddress_prefix [of a p ps]
    SimpleConcatAddress_example
  by blast

theorem C5_SimpleConcatAddress_witness:
  "SimpleConcatAddress ''25/96'' [] = ''25/96'' \<and>
   SimpleConcatAddress ''25/96'' ''b30:'' = ''b30:25/96''"
  using C5_SimpleConcatAddress [of "''25/96''" "CHR ''b''" "''30:''"]
  by simp

text \<open>
  C7. For an enabled mapping set and a non-empty interface name the compiler emits, in
  the order of the mapping pairs, exactly two rules for every pair that has both a public
  and a private address: first the outbound rule (POSTROUTING, egress interface, source
  the private address, translated to the public address), then the inbound rule
  (PREROUTING, ingress interface, destination the public address, translated to the
  private address). A pair missing either address contributes nothing, and a disabled
  set or an empty interface name gives the empty list. The function returns a list in
  every case: it has no error result.
\<close>

theorem C7_GenerateIp6tablesRules:
  "GenerateIp6tablesRules n i =
     (if Enabled n \<and> i \<noteq> []
      then concat (map (\<lambda>m.
             if Public m \<noteq> [] \<and> Private m \<noteq> []
             then [''ip6tables -t nat -A POSTROUTING -o '' @ i
                     @ '' -s '' @ SimpleConcatAddress (Private m) (PfxPriv n)
                     @ '' -j NETMAP --to '' @ SimpleConcatAddress (Public m) (PfxPub n),
                   ''ip6tables -t nat -A PREROUTING -i '' @ i
                     @ '' -d '' @ SimpleConcatAddress (Public m) (PfxPub n)
                     @ '' -j NETMAP --to '' @ SimpleConcatAddress (Private m) (PfxPriv n)]
             else []) (Maps n))
      else []) \<and>
   length (GenerateIp6tablesRules n i) =
     (if Enabled n \<and> i \<noteq> []
      then 2 * length (filter (\<lambda>m. Public m \<noteq> [] \<and> Private m \<noteq> []) (Maps n))
      else 0)"
proof -
  have "GenerateIp6tablesRules n i =
     (if Enabled n \<and> i \<noteq> []
      then concat (map (\<lambda>m. if complete m then pairRules n i m else []) (Maps n))
      else [])"
    by (rule GenerateIp6tablesRules_concat)
  moreover have "length (concat (map (\<lambda>m. if complete m then pairRules n i m else []) (Maps n)))
      = 2 * length (filter complete (Maps n))"
    by (rule length_concat_pairs)
  ultimately show ?thesis
    unfolding complete_def pairRules_def postroutingRule_def preroutingRule_def
    by simp
qed

theorem C7_GenerateIp6tablesRules_witness:
  "GenerateIp6tablesRules
     \<lparr>Name = ''set1'', Enabled = True, PfxPub = ''2001:db8:1::'', PfxPriv = ''fd00::'',
      Maps = [\<lparr>Public = ''20:0:0/96'', Private = ''1:0:0/96'', Radv = None\<rparr>,
              \<lparr>Public = ''21:0:0/96'', Private = [], Radv = None\<rparr>]\<rparr> ''pub1''
   = [''ip6tables -t nat -A POSTROUTING -o pub1 -s fd00:1:0:0/96 -j NETMAP --to 2001:db8:1:20:0:0/96'',
      ''ip6tables -t nat -A PREROUTING -i pub1 -d 2001:db8:1:20:0:0/96 -j NETMAP --to fd00:1:0:0/96'']"
  using C7_GenerateIp6tablesRules
    [of "\<lparr>Name = ''set1'', Enabled = True, PfxPub = ''2001:db8:1::'', PfxPriv = ''fd00::'',
      Maps = [\<lparr>Public = ''20:0:0/96'', Private = ''1:0:0/96'', Radv = None\<rparr>,
              \<lparr>Public = ''21:0:0/96'', Private = [], Radv = None\<rparr>]\<rparr>" "''pub1''"]
  by (simp add: SimpleConcatAddress_example SimpleConcatAddress_def Let_def slash_def colon_def
      TrimRightColon_def)

section \<open>Address validation\<close>

lemma nonEmptyCount_eq: "nonEmptyCount segs n = n + length (filter (\<lambda>seg. seg \<noteq> []) segs)"
  by (induction segs arbitrary: n) auto

lemma checkSegments_eq:
  "checkSegments segs = list_all (\<lambda>seg. length seg \<le> 4 \<and> list_all isHex seg) segs"
  by (induction segs) auto

lemma length_Split: "length (Split s sep) = Suc (length (filter (\<lambda>c. c = sep) s))"
  using Split_nonempty by (induction s) (auto simp: Suc_pred)

lemma Join_Split: "Join (Split s sep) [sep] = s"
proof (induction s)
  case Nil
  then show ?case by simp
next
  case (Cons c s)
  obtain p ps where ps: "Split s sep = p # ps"
    using Split_nonempty [of s sep] by (cases "Split s sep") auto
  with Cons show ?case
    by (cases ps) auto
qed

lemma Split_no_sep: "p \<in> set (Split s sep) \<Longrightarrow> sep \<notin> set p"
proof (induction s arbitrary: p)
  case Nil
  then show ?case by simp
next
  case (Cons c s)
  obtain q qs where qs: "Split s sep = q # qs"
    using Split_nonempty [of s sep] by (cases "Split s sep") auto
  with Cons show ?case
    by (auto split: if_splits)
qed

lemma Split_two:
  assumes "length (Split s sep) = 2"
  shows "s = Split s sep ! 0 @ sep # Split s sep ! 1"
    and "sep \<notin> set (Split s sep ! 0)" and "sep \<notin> set (Split s sep ! 1)"
proof -
  from assms obtain a b where ab: "Split s sep = [a, b]"
    by (cases "Split s sep") (auto simp: length_Suc_conv)
  from Join_Split [of s sep] ab show "s = Split s sep ! 0 @ sep # Split s sep ! 1"
    by simp
  from Split_no_sep [of a s sep] Split_no_sep [of b s sep] ab
  show "sep \<notin> set (Split s sep ! 0)" and "sep \<notin> set (Split s sep ! 1)"
    by simp_all
qed

lemma prefix_across_sep:
  "sep \<notin> set sub \<Longrightarrow> prefix sub (xs @ sep # ys) = prefix sub xs"
  by (auto simp: prefix_append prefix_Cons)

lemma Contains_across_sep:
  "sep \<notin> set sub \<Longrightarrow> sub \<noteq> [] \<Longrightarrow>
   Contains (xs @ sep # ys) sub = (Contains xs sub \<or> Contains ys sub)"
proof (induction xs)
  case Nil
  then show ?case by (auto simp: prefix_Cons)
next
  case (Cons x xs)
  from Cons.prems(1) have "prefix sub ((x # xs) @ sep # ys) = prefix sub (x # xs)"
    by (rule prefix_across_sep)
  with Cons show ?case by auto
qed

lemma Contains_subset: "Contains s sub \<Longrightarrow> set sub \<subseteq> set s"
proof (induction s)
  case Nil
  then show ?case by simp
next
  case (Cons c s)
  from Cons.prems have "prefix sub (c # s) \<or> Contains s sub" by simp
  then show ?case
  proof
    assume "prefix sub (c # s)"
    then show ?thesis by (rule set_mono_prefix)
  next
    assume "Contains s sub"
    with Cons.IH show ?thesis by auto
  qed
qed

lemma CountDoubleColon_no_colon: "colon \<notin> set s \<Longrightarrow> CountDoubleColon s = 0"
  by (induction s rule: CountDoubleColon.induct) auto

lemma CountDoubleColon_Cons_other:
  "c \<noteq> colon \<Longrightarrow> CountDoubleColon (c # s) = CountDoubleColon s"
  by (cases s) auto

lemma CountDoubleColon_across_sep:
  "sep \<noteq> colon \<Longrightarrow>
   CountDoubleColon (xs @ sep # ys) = CountDoubleColon xs + CountDoubleColon ys"
  by (induction xs rule: CountDoubleColon.induct) (auto simp: CountDoubleColon_Cons_other)

lemma Atoi_no_colon: "Atoi s = Some v \<Longrightarrow> colon \<notin> set s"
proof -
  assume a: "Atoi s = Some v"
  have d: "\<And>ds. list_all isDigit ds \<Longrightarrow> colon \<notin> set ds"
    by (auto simp: list_all_iff isDigit_def colon_def)
  show ?thesis
  proof (cases "s \<noteq> [] \<and> (hd s = CHR ''-'' \<or> hd s = CHR ''+'')")
    case True
    with a have "list_all isDigit (tl s)"
      by (auto simp: Atoi_def Let_def split: if_splits)
    from d [OF this] True show ?thesis
      by (cases s) (auto simp: colon_def)
  next
    case False
    with a have "list_all isDigit s"
      by (auto simp: Atoi_def Let_def split: if_splits)
    from d [OF this] show ?thesis .
  qed
qed


lemma takeWhile_sep: "sep \<notin> set a \<Longrightarrow> takeWhile (\<lambda>c. c \<noteq> sep) (a @ sep # b) = a"
  by (induction a) auto

lemma dropWhile_sep: "sep \<notin> set a \<Longrightarrow> dropWhile (\<lambda>c. c \<noteq> sep) (a @ sep # b) = sep # b"
  by (induction a) auto

lemma Split_two_parts:
  assumes "length (Split s sep) = 2"
  shows "Split s sep ! 0 = takeWhile (\<lambda>c. c \<noteq> sep) s"
    and "Split s sep ! 1 = tl (dropWhile (\<lambda>c. c \<noteq> sep) s)"
proof -
  let ?a = "Split s sep ! 0" and ?b = "Split s sep ! 1"
  from Split_two [OF assms] have s: "s = ?a @ sep # ?b" and a: "sep \<notin> set ?a"
    by blast+
  from a have "takeWhile (\<lambda>c. c \<noteq> sep) (?a @ sep # ?b) = ?a"
    by (rule takeWhile_sep)
  with s show "?a = takeWhile (\<lambda>c. c \<noteq> sep) s" by simp
  from a have "dropWhile (\<lambda>c. c \<noteq> sep) (?a @ sep # ?b) = sep # ?b"
    by (rule dropWhile_sep)
  with s show "?b = tl (dropWhile (\<lambda>c. c \<noteq> sep) s)"
    by (metis list.sel(3))
qed

lemma isValidIPv6AddressFormat_iff:
  "isValidIPv6AddressFormat ip \<longleftrightarrow>
     colon \<in> set ip \<and> \<not> Contains ip '':::'' \<and> CountDoubleColon ip \<le> 1 \<and>
     (if Contains ip ''::''
      then length (filter (\<lambda>seg. seg \<noteq> []) (Split ip colon)) \<le> 7
      else length (Split ip colon) = 8) \<and>
     list_all (\<lambda>seg. length seg \<le> 4 \<and> list_all isHex seg) (Split ip colon)"
proof -
  have c: "Contains ip '':'' = (colon \<in> set ip)"
    using Contains_single [of ip colon] by (simp add: colon_def)
  show ?thesis
    unfolding isValidIPv6AddressFormat_def Let_def c nonEmptyCount_eq checkSegments_eq
    by auto
qed

lemma isValidIPv6Address_iff:
  "isValidIPv6Address addr \<longleftrightarrow>
     isValidIPv6AddressFormat (takeWhile (\<lambda>c. c \<noteq> slash) addr) \<and>
     (if slash \<in> set addr
      then length (filter (\<lambda>c. c = slash) addr) = 1 \<and>
           (case Atoi (tl (dropWhile (\<lambda>c. c \<noteq> slash) addr)) of
              None \<Rightarrow> False | Some pl \<Rightarrow> 0 \<le> pl \<and> pl \<le> 128)
      else True)"
proof (cases "slash \<in> set addr")
  case True
  then have ne: "addr \<noteq> []" by auto
  show ?thesis
  proof (cases "length (Split addr slash) = 2")
    case two: True
    from Split_two_parts [OF two] two length_Split [of addr slash] True ne show ?thesis
      by (auto simp: isValidIPv6Address_def Let_def Contains_single split: option.splits)
  next
    case False
    with length_Split [of addr slash] True ne show ?thesis
      by (simp add: isValidIPv6Address_def Let_def Contains_single)
  qed
next
  case False
  then have t: "takeWhile (\<lambda>c. c \<noteq> slash) addr = addr"
    by (induction addr) auto
  have "\<not> isValidIPv6AddressFormat []"
    by (simp add: isValidIPv6AddressFormat_def)
  with False t show ?thesis
    by (auto simp: isValidIPv6Address_def Contains_single simp del: takeWhile_eq_all_conv)
qed

section \<open>Common-prefix inference\<close>

lemma cleanAddr_eq: "cleanAddr a = takeWhile (\<lambda>c. c \<noteq> slash) a"
proof (cases "slash \<in> set a")
  case True
  then show ?thesis
    using Split_nonempty [of a slash] hd_Split [of a slash]
    by (simp add: cleanAddr_def Contains_single hd_conv_nth)
next
  case False
  then have "takeWhile (\<lambda>c. c \<noteq> slash) a = a"
    by (induction a) auto
  with False show ?thesis
    by (simp add: cleanAddr_def Contains_single del: takeWhile_eq_all_conv)
qed

lemma remainder_shorter:
  "prefix cand a \<Longrightarrow> cand \<noteq> [] \<Longrightarrow> length (remainder cand a) < length a"
  by (cases cand) (auto simp: remainder_def TrimPrefix_def prefix_def)

lemma checkCandidate_iff:
  "cand \<noteq> [] \<Longrightarrow>
   (case checkCandidate cand addrs h of (allMatch, hasReduction) \<Rightarrow> allMatch \<and> hasReduction)
     \<longleftrightarrow> list_all (\<lambda>a. prefix cand (cleanAddr a)) addrs \<and>
          (h \<or> list_ex (\<lambda>a. remainder cand (cleanAddr a) \<noteq> []) addrs)"
proof (induction addrs arbitrary: h)
  case Nil
  then show ?case by simp
next
  case (Cons a addrs)
  show ?case
  proof (cases "prefix cand (cleanAddr a)")
    case True
    from remainder_shorter [OF True Cons.prems]
    have "remainder cand (cleanAddr a) \<noteq> cleanAddr a" by auto
    with True Cons.IH [OF Cons.prems] show ?thesis
      by (auto simp: Let_def remainder_def)
  next
    case False
    then show ?thesis by (simp add: Let_def)
  qed
qed

lemma accepted_iff:
  "accepted segs addrs k \<longleftrightarrow>
     k \<le> length segs \<and> list_all (\<lambda>a. prefix (candidate segs k) a) addrs \<and>
     list_ex (\<lambda>a. remainder (candidate segs k) a \<noteq> []) addrs"
proof -
  have ne: "candidate segs k \<noteq> []" by (simp add: candidate_def)
  have "list_all (\<lambda>a. prefix (candidate segs k) a) addrs \<Longrightarrow>
    list_ex (\<lambda>a. remainder (candidate segs k) a \<noteq> []) addrs \<Longrightarrow>
    list_ex (\<lambda>a. remainder (candidate segs k) a \<noteq> [] \<and>
                   length (remainder (candidate segs k) a) < length a) addrs"
    using remainder_shorter [OF _ ne] by (auto simp: list_all_iff list_ex_iff)
  then show ?thesis
    by (auto simp: accepted_def list_ex_iff)
qed

lemma tryPrefixLen_step:
  "tryPrefixLen segs addrs (Suc k) =
     (if accepted segs (map cleanAddr addrs) (Suc k) then candidate segs (Suc k)
      else tryPrefixLen segs addrs k)"
proof -
  have ne: "candidate segs (Suc k) \<noteq> []" by (simp add: candidate_def)
  from checkCandidate_iff [OF ne, of addrs False] show ?thesis
    by (auto simp: accepted_iff candidate_def [symmetric] Let_def list_all_iff list_ex_iff
        simp del: checkCandidate.simps split: prod.splits)
qed

lemma tryPrefixLen_3:
  "tryPrefixLen segs addrs 3 =
     (if accepted segs (map cleanAddr addrs) 3 then candidate segs 3
      else if accepted segs (map cleanAddr addrs) 2 then candidate segs 2
      else if accepted segs (map cleanAddr addrs) 1 then candidate segs 1
      else [])"
proof -
  have "tryPrefixLen segs addrs 3 = tryPrefixLen segs addrs (Suc (Suc (Suc 0)))"
    by (simp add: numeral_3_eq_3)
  also have "\<dots> = (if accepted segs (map cleanAddr addrs) (Suc (Suc (Suc 0)))
        then candidate segs (Suc (Suc (Suc 0)))
      else if accepted segs (map cleanAddr addrs) (Suc (Suc 0)) then candidate segs (Suc (Suc 0))
      else if accepted segs (map cleanAddr addrs) (Suc 0) then candidate segs (Suc 0)
      else [])"
    by (simp only: tryPrefixLen_step tryPrefixLen.simps(1))
  finally show ?thesis
    by (simp add: numeral_3_eq_3 numeral_2_eq_2)
qed

lemma accepted_strict_prefix:
  "accepted segs addrs k \<Longrightarrow> list_ex (\<lambda>a. strict_prefix (candidate segs k) a) addrs"
proof -
  assume "accepted segs addrs k"
  then obtain a where a: "a \<in> set addrs" "prefix (candidate segs k) a"
      "remainder (candidate segs k) a \<noteq> []"
    by (auto simp: accepted_iff list_all_iff list_ex_iff)
  then have "candidate segs k \<noteq> a"
    by (auto simp: remainder_def TrimPrefix_def)
  with a show ?thesis
    by (auto simp: list_ex_iff strict_prefix_def)
qed

section \<open>Validation, the rule compiler and advertisement routes\<close>

lemma valid_no_triple: "isValidIPv6Address addr \<Longrightarrow> \<not> Contains addr '':::''"
proof (cases "slash \<in> set addr")
  case False
  assume "isValidIPv6Address addr"
  with False show ?thesis
    by (auto simp: isValidIPv6Address_def Contains_single isValidIPv6AddressFormat_iff
        split: if_splits)
next
  case True
  assume v: "isValidIPv6Address addr"
  let ?a = "Split addr slash ! 0" and ?b = "Split addr slash ! 1"
  from v True have two: "length (Split addr slash) = 2"
    and fmt: "isValidIPv6AddressFormat ?a" and "\<exists>pl. Atoi ?b = Some pl"
    by (auto simp: isValidIPv6Address_def Contains_single Let_def
        split: if_splits option.splits)
  then have nb: "colon \<notin> set ?b" using Atoi_no_colon by blast
  have "\<not> Contains ?b '':::''"
    using Contains_subset [of ?b "'':::''"] nb by (auto simp: colon_def)
  moreover have "\<not> Contains ?a '':::''"
    using fmt by (simp add: isValidIPv6AddressFormat_iff)
  moreover have "Contains (?a @ slash # ?b) '':::'' = (Contains ?a '':::'' \<or> Contains ?b '':::'')"
    by (rule Contains_across_sep) (simp_all add: slash_def)
  ultimately show ?thesis
    using Split_two(1) [OF two] by simp
qed

lemma valid_count: "isValidIPv6Address addr \<Longrightarrow> CountDoubleColon addr \<le> 1"
proof (cases "slash \<in> set addr")
  case False
  assume "isValidIPv6Address addr"
  with False show ?thesis
    by (auto simp: isValidIPv6Address_def Contains_single isValidIPv6AddressFormat_iff
        split: if_splits)
next
  case True
  assume v: "isValidIPv6Address addr"
  let ?a = "Split addr slash ! 0" and ?b = "Split addr slash ! 1"
  from v True have two: "length (Split addr slash) = 2"
    and fmt: "isValidIPv6AddressFormat ?a" and "\<exists>pl. Atoi ?b = Some pl"
    by (auto simp: isValidIPv6Address_def Contains_single Let_def
        split: if_splits option.splits)
  then have nb: "colon \<notin> set ?b" using Atoi_no_colon by blast
  have "CountDoubleColon (?a @ slash # ?b) = CountDoubleColon ?a + CountDoubleColon ?b"
    by (rule CountDoubleColon_across_sep) (simp add: slash_def colon_def)
  moreover have "CountDoubleColon ?a \<le> 1"
    using fmt by (simp add: isValidIPv6AddressFormat_iff)
  ultimately show ?thesis
    using Split_two(1) [OF two] CountDoubleColon_no_colon [OF nb] by simp
qed

lemma radvLoop_eq:
  "radvLoop n ms routes = routes @ List.map_filter (\<lambda>m.
      case Radv m of
        None \<Rightarrow> None
      | Some radv \<Rightarrow>
          if isValidIPv6Address (SimpleConcatAddress (Public m) (PfxPub n))
          then Some \<lparr>Preference = Preference radv, Metric = Metric radv,
                     Lifetime = Lifetime radv,
                     Prefix = SimpleConcatAddress (Public m) (PfxPub n)\<rparr>
          else None) ms"
  by (induction ms arbitrary: routes) (auto simp: List.map_filter_simps Let_def split: option.splits)

text \<open>
  C6 (amended). The validator accepts an address exactly when its address part (the text
  before the first slash) contains a colon, does not contain \<open>:::\<close>, has at most one
  \<open>::\<close>, has at most 7 non-empty segments if it contains \<open>::\<close> and exactly 8
  colon-separated segments if it does not, and every segment has at most 4 characters,
  all hexadecimal; and, when the address has a slash, it has exactly one and the text
  after it is a decimal integer (an optional sign allowed) from 0 to 128. In particular an
  address containing \<open>:::\<close>, more than one \<open>::\<close>, or a segment longer than 4
  characters is rejected, and advertisement-route generation keeps exactly the mappings
  that carry an annotation and whose expanded public address is accepted.
\<close>

theorem C6_isValidIPv6Address:
  "(isValidIPv6Address addr \<longleftrightarrow>
     (let ip = takeWhile (\<lambda>c. c \<noteq> CHR ''/'') addr; segs = Split ip (CHR '':'') in
        CHR '':'' \<in> set ip \<and> \<not> Contains ip '':::'' \<and> CountDoubleColon ip \<le> 1 \<and>
        (if Contains ip ''::''
         then length (filter (\<lambda>seg. seg \<noteq> []) segs) \<le> 7
         else length segs = 8) \<and>
        list_all (\<lambda>seg. length seg \<le> 4 \<and> list_all isHex seg) segs \<and>
        (if CHR ''/'' \<in> set addr
         then length (filter (\<lambda>c. c = CHR ''/'') addr) = 1 \<and>
              (case Atoi (tl (dropWhile (\<lambda>c. c \<noteq> CHR ''/'') addr)) of
                 None \<Rightarrow> False | Some pl \<Rightarrow> 0 \<le> pl \<and> pl \<le> 128)
         else True))) \<and>
   (Contains addr '':::'' \<longrightarrow> \<not> isValidIPv6Address addr) \<and>
   (1 < CountDoubleColon addr \<longrightarrow> \<not> isValidIPv6Address addr) \<and>
   (list_ex (\<lambda>seg. 4 < length seg) (Split (takeWhile (\<lambda>c. c \<noteq> CHR ''/'') addr) (CHR '':''))
      \<longrightarrow> \<not> isValidIPv6Address addr) \<and>
   GetRadvRoutes n =
     (if Enabled n
      then List.map_filter (\<lambda>m.
             case Radv m of
               None \<Rightarrow> None
             | Some radv \<Rightarrow>
                 if isValidIPv6Address (SimpleConcatAddress (Public m) (PfxPub n))
                 then Some \<lparr>Preference = Preference radv, Metric = Metric radv,
                            Lifetime = Lifetime radv,
                            Prefix = SimpleConcatAddress (Public m) (PfxPub n)\<rparr>
                 else None) (Maps n)
      else [])"
proof -
  have iff: "isValidIPv6Address addr \<longleftrightarrow>
     (let ip = takeWhile (\<lambda>c. c \<noteq> CHR ''/'') addr; segs = Split ip (CHR '':'') in
        CHR '':'' \<in> set ip \<and> \<not> Contains ip '':::'' \<and> CountDoubleColon ip \<le> 1 \<and>
        (if Contains ip ''::''
         then length (filter (\<lambda>seg. seg \<noteq> []) segs) \<le> 7
         else length segs = 8) \<and>
        list_all (\<lambda>seg. length seg \<le> 4 \<and> list_all isHex seg) segs \<and>
        (if CHR ''/'' \<in> set addr
         then length (filter (\<lambda>c. c = CHR ''/'') addr) = 1 \<and>
              (case Atoi (tl (dropWhile (\<lambda>c. c \<noteq> CHR ''/'') addr)) of
                 None \<Rightarrow> False | Some pl \<Rightarrow> 0 \<le> pl \<and> pl \<le> 128)
         else True))"
    unfolding isValidIPv6Address_iff [of addr] isValidIPv6AddressFormat_iff Let_def
      slash_def colon_def
    by (simp only: conj_assoc)
  have long: "list_ex (\<lambda>seg. 4 < length seg)
      (Split (takeWhile (\<lambda>c. c \<noteq> CHR ''/'') addr) (CHR '':'')) \<Longrightarrow> \<not> isValidIPv6Address addr"
  proof
    assume ex: "list_ex (\<lambda>seg. 4 < length seg)
      (Split (takeWhile (\<lambda>c. c \<noteq> CHR ''/'') addr) (CHR '':''))"
    assume "isValidIPv6Address addr"
    with iff have "list_all (\<lambda>seg. length seg \<le> 4 \<and> list_all isHex seg)
      (Split (takeWhile (\<lambda>c. c \<noteq> CHR ''/'') addr) (CHR '':''))"
      by (simp add: Let_def)
    with ex show False
      by (fastforce simp: list_all_iff list_ex_iff)
  qed
  have routes: "GetRadvRoutes n =
     (if Enabled n
      then List.map_filter (\<lambda>m.
             case Radv m of
               None \<Rightarrow> None
             | Some radv \<Rightarrow>
                 if isValidIPv6Address (SimpleConcatAddress (Public m) (PfxPub n))
                 then Some \<lparr>Preference = Preference radv, Metric = Metric radv,
                            Lifetime = Lifetime radv,
                            Prefix = SimpleConcatAddress (Public m) (PfxPub n)\<rparr>
                 else None) (Maps n)
      else [])"
    by (simp add: GetRadvRoutes_def radvLoop_eq)
  have triple: "Contains addr '':::'' \<longrightarrow> \<not> isValidIPv6Address addr"
    using valid_no_triple [of addr] by blast
  have count: "1 < CountDoubleColon addr \<longrightarrow> \<not> isValidIPv6Address addr"
    using valid_count [of addr] by auto
  from long have long': "list_ex (\<lambda>seg. 4 < length seg)
      (Split (takeWhile (\<lambda>c. c \<noteq> CHR ''/'') addr) (CHR '':'')) \<longrightarrow> \<not> isValidIPv6Address addr"
    by (rule impI)
  from iff triple count long' routes show ?thesis
    by (intro conjI) assumption+
qed


theorem C6_isValidIPv6Address_witness:
  "isValidIPv6Address ''2001:db8:1::25:0:0/96'' \<and>
   \<not> isValidIPv6Address ''2001:db8:1:::25:0:0/96'' \<and>
   \<not> isValidIPv6Address ''2001::db8::1'' \<and>
   \<not> isValidIPv6Address ''2001:db8:12345::1'' \<and>
   GetRadvRoutes
     \<lparr>Name = ''c1'', Enabled = True, PfxPub = ''2001:db8:1::'', PfxPriv = ''b30::20:'',
      Maps = [\<lparr>Public = ''::25:0:0/96'', Private = ''22:0:0/96'',
               Radv = Some \<lparr>Preference = ''high'', Metric = 100, Lifetime = 3600, Prefix = []\<rparr>\<rparr>]\<rparr>
     = []"
proof -
  have a: "Contains ''2001:db8:1:::25:0:0/96'' '':::''"
    by code_simp
  have b: "1 < CountDoubleColon ''2001::db8::1''"
    by code_simp
  have c: "list_ex (\<lambda>seg. 4 < length seg)
      (Split (takeWhile (\<lambda>c. c \<noteq> CHR ''/'') ''2001:db8:12345::1'') (CHR '':''))"
    by code_simp
  have d: "isValidIPv6Address ''2001:db8:1::25:0:0/96''"
    by code_simp
  have e: "SimpleConcatAddress ''::25:0:0/96'' ''2001:db8:1::'' = ''2001:db8:1:::25:0:0/96''"
    by code_simp
  let ?n = "\<lparr>Name = ''c1'', Enabled = True, PfxPub = ''2001:db8:1::'', PfxPriv = ''b30::20:'',
      Maps = [\<lparr>Public = ''::25:0:0/96'', Private = ''22:0:0/96'',
               Radv = Some \<lparr>Preference = ''high'', Metric = 100, Lifetime = 3600, Prefix = []\<rparr>\<rparr>]\<rparr>"
  from C6_isValidIPv6Address [of "''2001:db8:1:::25:0:0/96''" ?n] a
  have na: "\<not> isValidIPv6Address ''2001:db8:1:::25:0:0/96''"
    by blast
  from C6_isValidIPv6Address [of "''2001::db8::1''" ?n] b
  have nb: "\<not> isValidIPv6Address ''2001::db8::1''"
    by blast
  from C6_isValidIPv6Address [of "''2001:db8:12345::1''" ?n] c
  have nc: "\<not> isValidIPv6Address ''2001:db8:12345::1''"
    by blast
  from C6_isValidIPv6Address [of "[]" ?n] have "GetRadvRoutes ?n = []"
    using na e by (simp add: List.map_filter_simps)
  with d na nb nc show ?thesis
    by blast
qed

text \<open>
  C6 as stated fails: \<open>2001:db8:1:20\<close> has a separator, no compressed-zero marker and
  4 segments of at most 4 hexadecimal characters, so it meets the stated condition, but
  the validator rejects it, because an address without \<open>::\<close> must have exactly 8
  segments.
\<close>

theorem C6_counterexample:
  "specStructurallyValid ''2001:db8:1:20'' \<and> \<not> isValidIPv6Address ''2001:db8:1:20''"
  by code_simp

text \<open>
  C8 as stated fails: with the prefixes and the first pair of the sample configuration
  the expanded public address contains \<open>:::\<close> and fails validation, yet the rule
  compiler emits both rules for the pair.
\<close>

theorem C8_counterexample:
  "\<not> isValidIPv6Address (SimpleConcatAddress ''::25:0:0/96'' ''2001:db8:1::'') \<and>
   GenerateIp6tablesRules
     \<lparr>Name = ''c1'', Enabled = True, PfxPub = ''2001:db8:1::'', PfxPriv = ''b30::20:'',
      Maps = [\<lparr>Public = ''::25:0:0/96'', Private = ''20:0:0/96'', Radv = None\<rparr>]\<rparr> ''pub1a''
   = [''ip6tables -t nat -A POSTROUTING -o pub1a -s b30::20:20:0:0/96 -j NETMAP --to 2001:db8:1:::25:0:0/96'',
      ''ip6tables -t nat -A PREROUTING -i pub1a -d 2001:db8:1:::25:0:0/96 -j NETMAP --to b30::20:20:0:0/96'']"
  by code_simp


lemma SimpleConcatAddress_empty: "SimpleConcatAddress a p = [] \<longleftrightarrow> a = [] \<and> p = []"
  by (auto simp: SimpleConcatAddress_def Let_def)

lemma concat_pairs_drop:
  "\<not> complete m \<Longrightarrow>
   concat (map (\<lambda>m. if complete m then pairRules n i m else []) (before @ m # after)) =
   concat (map (\<lambda>m. if complete m then pairRules n i m else []) (before @ after))"
  by simp

lemma map_filter_append: "List.map_filter f (xs @ ys) = List.map_filter f xs @ List.map_filter f ys"
  by (simp add: List.map_filter_def)

text \<open>
  C8 (amended). The rule compiler drops a pair exactly when its public or its private
  address is empty, whatever the prefixes: the rules of the set are then those of the set
  without the pair. This covers every pair whose expanded address is empty, since an
  expanded address is empty only if the address itself is. It does not validate: a pair
  with both addresses non-empty contributes its outbound and its inbound rule, whatever
  the validator says of the expanded values. Validation filters advertisement routes: a
  mapping whose expanded public address fails it contributes no route. None of these
  functions has an error result.
\<close>

theorem C8_GenerateIp6tablesRules:
  "(Public m = [] \<or> Private m = [] \<longrightarrow>
      GenerateIp6tablesRules (n\<lparr>Maps := before @ m # after\<rparr>) i =
      GenerateIp6tablesRules (n\<lparr>Maps := before @ after\<rparr>) i) \<and>
   (SimpleConcatAddress (Public m) (PfxPub n) = [] \<or>
    SimpleConcatAddress (Private m) (PfxPriv n) = [] \<longrightarrow>
      Public m = [] \<or> Private m = []) \<and>
   (Enabled n \<and> i \<noteq> [] \<and> Public m \<noteq> [] \<and> Private m \<noteq> [] \<longrightarrow>
      GenerateIp6tablesRules (n\<lparr>Maps := before @ m # after\<rparr>) i =
        GenerateIp6tablesRules (n\<lparr>Maps := before\<rparr>) i
        @ [''ip6tables -t nat -A POSTROUTING -o '' @ i
             @ '' -s '' @ SimpleConcatAddress (Private m) (PfxPriv n)
             @ '' -j NETMAP --to '' @ SimpleConcatAddress (Public m) (PfxPub n),
           ''ip6tables -t nat -A PREROUTING -i '' @ i
             @ '' -d '' @ SimpleConcatAddress (Public m) (PfxPub n)
             @ '' -j NETMAP --to '' @ SimpleConcatAddress (Private m) (PfxPriv n)]
        @ GenerateIp6tablesRules (n\<lparr>Maps := after\<rparr>) i) \<and>
   (\<not> isValidIPv6Address (SimpleConcatAddress (Public m) (PfxPub n)) \<longrightarrow>
      GetRadvRoutes (n\<lparr>Maps := before @ m # after\<rparr>) =
      GetRadvRoutes (n\<lparr>Maps := before @ after\<rparr>))"
proof (intro conjI impI)
  assume "Public m = [] \<or> Private m = []"
  then have "\<not> complete m"
    by (auto simp: complete_def)
  then show "GenerateIp6tablesRules (n\<lparr>Maps := before @ m # after\<rparr>) i =
      GenerateIp6tablesRules (n\<lparr>Maps := before @ after\<rparr>) i"
    by (simp add: GenerateIp6tablesRules_concat pairRules_def cong: if_cong)
next
  assume "SimpleConcatAddress (Public m) (PfxPub n) = [] \<or>
    SimpleConcatAddress (Private m) (PfxPriv n) = []"
  then show "Public m = [] \<or> Private m = []"
    by (auto simp: SimpleConcatAddress_empty)
next
  assume "Enabled n \<and> i \<noteq> [] \<and> Public m \<noteq> [] \<and> Private m \<noteq> []"
  then show "GenerateIp6tablesRules (n\<lparr>Maps := before @ m # after\<rparr>) i =
        GenerateIp6tablesRules (n\<lparr>Maps := before\<rparr>) i
        @ [''ip6tables -t nat -A POSTROUTING -o '' @ i
             @ '' -s '' @ SimpleConcatAddress (Private m) (PfxPriv n)
             @ '' -j NETMAP --to '' @ SimpleConcatAddress (Public m) (PfxPub n),
           ''ip6tables -t nat -A PREROUTING -i '' @ i
             @ '' -d '' @ SimpleConcatAddress (Public m) (PfxPub n)
             @ '' -j NETMAP --to '' @ SimpleConcatAddress (Private m) (PfxPriv n)]
        @ GenerateIp6tablesRules (n\<lparr>Maps := after\<rparr>) i"
    by (simp add: GenerateIp6tablesRules_concat pairRules_def complete_def
        postroutingRule_def preroutingRule_def cong: if_cong)
next
  assume "\<not> isValidIPv6Address (SimpleConcatAddress (Public m) (PfxPub n))"
  then show "GetRadvRoutes (n\<lparr>Maps := before @ m # after\<rparr>) =
      GetRadvRoutes (n\<lparr>Maps := before @ after\<rparr>)"
    by (simp add: GetRadvRoutes_def radvLoop_eq map_filter_append List.map_filter_simps
        split: option.splits cong: if_cong option.case_cong)
qed

lemma findCommonIPv6Prefix_eq:
  assumes "mappings \<noteq> []"
  shows "findCommonIPv6Prefix mappings isPublic =
    (let addrs = map (\<lambda>m. takeWhile (\<lambda>c. c \<noteq> CHR ''/'') (if isPublic then mPublic m else mPrivate m))
                   mappings;
         segs = Split (hd addrs) (CHR '':'')
     in if accepted segs addrs 3 then candidate segs 3
        else if accepted segs addrs 2 then candidate segs 2
        else if accepted segs addrs 1 then candidate segs 1
        else [])"
proof -
  let ?sel = "\<lambda>m. if isPublic then mPublic m else mPrivate m"
  have m: "map cleanAddr (map ?sel mappings) =
      map (\<lambda>m. takeWhile (\<lambda>c. c \<noteq> CHR ''/'') (?sel m)) mappings"
    by (simp add: cleanAddr_eq slash_def)
  from assms have h: "cleanAddr (hd (map ?sel mappings)) =
      hd (map (\<lambda>m. takeWhile (\<lambda>c. c \<noteq> CHR ''/'') (?sel m)) mappings)"
    by (cases mappings) (simp_all add: cleanAddr_eq slash_def)
  from assms show ?thesis
    unfolding findCommonIPv6Prefix_def Let_def tryPrefixLen_3 m h colon_def
    by simp
qed

text \<open>
  C9 (amended). For a non-empty list of mappings the inference returns the candidate of
  the largest \<open>k\<close> among 3, 2, 1 that is accepted, and the empty string when none is.
  The candidate of \<open>k\<close> is the first \<open>k\<close> colon-separated segments of the first
  address joined by colons, with a colon appended; it is accepted when the first address
  has at least \<open>k\<close> segments, every address (CIDR suffix removed) starts with it, and
  for at least one address what is left after removing the candidate and one further
  leading colon is non-empty and shorter than the address. A non-empty result is a proper
  prefix of at least one address. For \<open>2001:db8:1:20:0:0\<close>, \<open>2001:db8:1:21:0:0\<close>,
  \<open>2001:db8:1:22:0:0\<close> the result is \<open>2001:db8:1:\<close>.
\<close>

theorem C9_findCommonIPv6Prefix:
  "(mappings \<noteq> [] \<longrightarrow>
     (let addrs = map (\<lambda>m. takeWhile (\<lambda>c. c \<noteq> CHR ''/'')
                             (if isPublic then mPublic m else mPrivate m)) mappings;
          segs = Split (hd addrs) (CHR '':'');
          result = findCommonIPv6Prefix mappings isPublic
      in result = (if accepted segs addrs 3 then candidate segs 3
                   else if accepted segs addrs 2 then candidate segs 2
                   else if accepted segs addrs 1 then candidate segs 1
                   else []) \<and>
         (result \<noteq> [] \<longrightarrow> list_ex (\<lambda>a. strict_prefix result a) addrs))) \<and>
   findCommonIPv6Prefix
     [\<lparr>mPublic = ''2001:db8:1:20:0:0'', mPrivate = []\<rparr>,
      \<lparr>mPublic = ''2001:db8:1:21:0:0'', mPrivate = []\<rparr>,
      \<lparr>mPublic = ''2001:db8:1:22:0:0'', mPrivate = []\<rparr>] True = ''2001:db8:1:''"
proof (intro conjI impI)
  assume ne: "mappings \<noteq> []"
  let ?addrs = "map (\<lambda>m. takeWhile (\<lambda>c. c \<noteq> CHR ''/'')
                             (if isPublic then mPublic m else mPrivate m)) mappings"
  let ?segs = "Split (hd ?addrs) (CHR '':'')"
  let ?r = "findCommonIPv6Prefix mappings isPublic"
  have eq: "?r = (if accepted ?segs ?addrs 3 then candidate ?segs 3
                   else if accepted ?segs ?addrs 2 then candidate ?segs 2
                   else if accepted ?segs ?addrs 1 then candidate ?segs 1
                   else [])"
    using findCommonIPv6Prefix_eq [OF ne, of isPublic] by (simp add: Let_def)
  have "?r \<noteq> [] \<Longrightarrow> list_ex (\<lambda>a. strict_prefix ?r a) ?addrs"
    unfolding eq using accepted_strict_prefix [of ?segs ?addrs]
    by (auto split: if_splits)
  with eq show "let addrs = ?addrs; segs = Split (hd addrs) (CHR '':''); result = ?r
      in result = (if accepted segs addrs 3 then candidate segs 3
                   else if accepted segs addrs 2 then candidate segs 2
                   else if accepted segs addrs 1 then candidate segs 1
                   else []) \<and>
         (result \<noteq> [] \<longrightarrow> list_ex (\<lambda>a. strict_prefix result a) addrs)"
    unfolding Let_def by blast
next
  show "findCommonIPv6Prefix
     [\<lparr>mPublic = ''2001:db8:1:20:0:0'', mPrivate = []\<rparr>,
      \<lparr>mPublic = ''2001:db8:1:21:0:0'', mPrivate = []\<rparr>,
      \<lparr>mPublic = ''2001:db8:1:22:0:0'', mPrivate = []\<rparr>] True = ''2001:db8:1:''"
    by code_simp
qed

text \<open>
  C9 as stated fails in its last clause: for the addresses \<open>2001:db8::1:0/112\<close> and
  \<open>2001:db8::/112\<close> the result is \<open>2001:db8::\<close>, which is the whole second
  address.
\<close>

theorem C9_counterexample:
  "findCommonIPv6Prefix
     [\<lparr>mPublic = ''2001:db8::1:0/112'', mPrivate = ''fd00::1:0/112''\<rparr>,
      \<lparr>mPublic = ''2001:db8::/112'', mPrivate = ''fd00::/112''\<rparr>] True = ''2001:db8::'' \<and>
   cleanAddr ''2001:db8::/112'' = ''2001:db8::''"
  by code_simp

theorem C8_GenerateIp6tablesRules_witness:
  "GenerateIp6tablesRules
     \<lparr>Name = ''c1'', Enabled = True, PfxPub = ''2001:db8:1::'', PfxPriv = ''b30::20:'',
      Maps = [\<lparr>Public = [], Private = ''20:0:0/96'', Radv = None\<rparr>]\<rparr> ''pub1a'' = [] \<and>
   GenerateIp6tablesRules
     \<lparr>Name = ''c1'', Enabled = True, PfxPub = ''2001:db8:1::'', PfxPriv = ''b30::20:'',
      Maps = [\<lparr>Public = ''::25:0:0/96'', Private = [], Radv = None\<rparr>]\<rparr> ''pub1a'' = [] \<and>
   SimpleConcatAddress [] ''2001:db8:1::'' = ''2001:db8:1:'' \<and>
   SimpleConcatAddress [] [] = [] \<and>
   GenerateIp6tablesRules
     \<lparr>Name = ''c1'', Enabled = True, PfxPub = [], PfxPriv = ''b30::20:'',
      Maps = [\<lparr>Public = [], Private = ''20:0:0/96'', Radv = None\<rparr>]\<rparr> ''pub1a'' = [] \<and>
   GenerateIp6tablesRules
     \<lparr>Name = ''c1'', Enabled = True, PfxPub = ''2001:db8:1::'', PfxPriv = ''b30::20:'',
      Maps = [\<lparr>Public = ''::25:0:0/96'', Private = ''20:0:0/96'', Radv = None\<rparr>]\<rparr> ''pub1a''
   = [''ip6tables -t nat -A POSTROUTING -o pub1a -s b30::20:20:0:0/96 -j NETMAP --to 2001:db8:1:::25:0:0/96'',
      ''ip6tables -t nat -A PREROUTING -i pub1a -d 2001:db8:1:::25:0:0/96 -j NETMAP --to b30::20:20:0:0/96''] \<and>
   GetRadvRoutes
     \<lparr>Name = ''c1'', Enabled = True, PfxPub = ''2001:db8:1::'', PfxPriv = ''b30::20:'',
      Maps = [\<lparr>Public = ''::25:0:0/96'', Private = ''22:0:0/96'',
               Radv = Some \<lparr>Preference = ''high'', Metric = 100, Lifetime = 3600, Prefix = []\<rparr>\<rparr>]\<rparr>
   = []"
proof -
  let ?na = "\<lparr>Name = ''c1'', Enabled = True, PfxPub = [], PfxPriv = ''b30::20:'', Maps = []\<rparr>"
  let ?n = "\<lparr>Name = ''c1'', Enabled = True, PfxPub = ''2001:db8:1::'', PfxPriv = ''b30::20:'',
      Maps = []\<rparr>"
  let ?ma = "\<lparr>Public = [], Private = ''20:0:0/96'', Radv = None\<rparr>"
  let ?mb = "\<lparr>Public = ''::25:0:0/96'', Private = ''20:0:0/96'', Radv = None\<rparr>"
  let ?mc = "\<lparr>Public = ''::25:0:0/96'', Private = ''22:0:0/96'',
               Radv = Some \<lparr>Preference = ''high'', Metric = 100, Lifetime = 3600, Prefix = []\<rparr>\<rparr>"
  let ?md = "\<lparr>Public = ''::25:0:0/96'', Private = [], Radv = None\<rparr>"
  have pub: "SimpleConcatAddress ''::25:0:0/96'' ''2001:db8:1::'' = ''2001:db8:1:::25:0:0/96''"
    by code_simp
  have priv: "SimpleConcatAddress ''20:0:0/96'' ''b30::20:'' = ''b30::20:20:0:0/96''"
    by code_simp
  have inv: "\<not> isValidIPv6Address ''2001:db8:1:::25:0:0/96''"
    by code_simp
  have exp: "SimpleConcatAddress [] ''2001:db8:1::'' = ''2001:db8:1:''"
    "SimpleConcatAddress [] [] = []"
    by code_simp+
  have e: "GenerateIp6tablesRules ?na ''pub1a'' = []" "GenerateIp6tablesRules ?n ''pub1a'' = []"
    "GetRadvRoutes ?n = []"
    by (simp_all add: GenerateIp6tablesRules_def GetRadvRoutes_def)
  from C8_GenerateIp6tablesRules [where m = "?ma" and n = "?n" and before = "[]" and after = "[]"
      and i = "''pub1a''"] e
  have 0: "GenerateIp6tablesRules (?n\<lparr>Maps := [?ma]\<rparr>) ''pub1a'' = []"
    by simp
  from C8_GenerateIp6tablesRules [where m = "?md" and n = "?n" and before = "[]" and after = "[]"
      and i = "''pub1a''"] e
  have 00: "GenerateIp6tablesRules (?n\<lparr>Maps := [?md]\<rparr>) ''pub1a'' = []"
    by simp
  from C8_GenerateIp6tablesRules [where m = "?ma" and n = "?na" and before = "[]" and after = "[]"
      and i = "''pub1a''"] e
  have 1: "GenerateIp6tablesRules (?na\<lparr>Maps := [?ma]\<rparr>) ''pub1a'' = []"
    by simp
  from C8_GenerateIp6tablesRules [where m = "?mb" and n = "?n" and before = "[]" and after = "[]"
      and i = "''pub1a''"] e pub priv
  have 2: "GenerateIp6tablesRules (?n\<lparr>Maps := [?mb]\<rparr>) ''pub1a''
   = [''ip6tables -t nat -A POSTROUTING -o pub1a -s b30::20:20:0:0/96 -j NETMAP --to 2001:db8:1:::25:0:0/96'',
      ''ip6tables -t nat -A PREROUTING -i pub1a -d 2001:db8:1:::25:0:0/96 -j NETMAP --to b30::20:20:0:0/96'']"
    by simp
  from C8_GenerateIp6tablesRules [where m = "?mc" and n = "?n" and before = "[]" and after = "[]"
      and i = "''pub1a''"] e pub inv
  have 3: "GetRadvRoutes (?n\<lparr>Maps := [?mc]\<rparr>) = []"
    by simp
  from 0 00 1 2 3 exp show ?thesis by simp
qed

theorem C9_findCommonIPv6Prefix_witness:
  "findCommonIPv6Prefix
     [\<lparr>mPublic = ''2001:db8:1:20:0:0/96'', mPrivate = ''b30::20:20:0:0/96''\<rparr>,
      \<lparr>mPublic = ''2001:db8:1:21:0:0/96'', mPrivate = ''b30::20:21:0:0/96''\<rparr>] False
     = ''b30::20:'' \<and>
   list_ex (\<lambda>a. strict_prefix
       (findCommonIPv6Prefix
         [\<lparr>mPublic = ''2001:db8:1:20:0:0/96'', mPrivate = ''b30::20:20:0:0/96''\<rparr>,
          \<lparr>mPublic = ''2001:db8:1:21:0:0/96'', mPrivate = ''b30::20:21:0:0/96''\<rparr>] False) a)
     [''b30::20:20:0:0'', ''b30::20:21:0:0'']"
proof -
  let ?ms = "[\<lparr>mPublic = ''2001:db8:1:20:0:0/96'', mPrivate = ''b30::20:20:0:0/96''\<rparr>,
      \<lparr>mPublic = ''2001:db8:1:21:0:0/96'', mPrivate = ''b30::20:21:0:0/96''\<rparr>]"
  let ?addrs = "map (\<lambda>m. takeWhile (\<lambda>c. c \<noteq> CHR ''/'')
                             (if False then mPublic m else mPrivate m)) ?ms"
  let ?segs = "Split (hd ?addrs) (CHR '':'')"
  let ?r = "findCommonIPv6Prefix ?ms False"
  have ne: "?ms \<noteq> []" by simp
  have acc: "accepted ?segs ?addrs 3"
    by code_simp
  have cand: "candidate ?segs 3 = ''b30::20:''"
    by code_simp
  have addrs: "?addrs = [''b30::20:20:0:0'', ''b30::20:21:0:0'']"
    by simp
  from C9_findCommonIPv6Prefix [of ?ms False, unfolded Let_def] ne
  have r: "?r = (if accepted ?segs ?addrs 3 then candidate ?segs 3
                 else if accepted ?segs ?addrs 2 then candidate ?segs 2
                 else if accepted ?segs ?addrs 1 then candidate ?segs 1
                 else [])"
    and s: "?r \<noteq> [] \<longrightarrow> list_ex (\<lambda>a. strict_prefix ?r a) ?addrs"
    by blast+
  from r acc cand have v: "?r = ''b30::20:''"
    by (simp only: if_True)
  then have "?r \<noteq> []" by simp
  with s have "list_ex (\<lambda>a. strict_prefix ?r a) ?addrs" by blast
  with v show ?thesis
    by (simp only: addrs)
qed

section \<open>The diff of the reconcilers\<close>

lemma makeSet_iff: "makeSet items x \<longleftrightarrow> x \<in> set items"
proof -
  have "foldl (\<lambda>itemSet item. itemSet(item := True)) s items x \<longleftrightarrow> s x \<or> x \<in> set items" for s
    by (induction items arbitrary: s) auto
  then show ?thesis by (simp add: makeSet_def)
qed

lemma normalizeRules_map: "normalizeRules rules = map normalizeRule rules"
  by (induction rules) auto

lemma differenceLoop_eq:
  "differenceLoop S items result = result @ filter (\<lambda>item. \<not> S item) items"
  by (induction items arbitrary: result) auto

lemma difference_eq: "difference slice1 slice2 = filter (\<lambda>item. item \<notin> set slice2) slice1"
  by (simp add: difference_def differenceLoop_eq makeSet_iff)

lemma smartLoop_eq:
  "i + length items = length orig \<Longrightarrow>
   smartLoop orig S i items result =
     Inr (result @ map fst (filter (\<lambda>(rule, item). \<not> S item) (zip (drop i orig) items)))"
proof (induction items arbitrary: i result)
  case Nil
  then show ?case by simp
next
  case (Cons item items)
  from Cons.prems have i: "i < length orig" and s: "Suc i + length items = length orig"
    by simp_all
  from i have d: "drop i orig = orig ! i # drop (Suc i) orig"
    by (simp add: Cons_nth_drop_Suc)
  from Cons.IH [OF s] i show ?case
    by (simp add: d)
qed

lemma filter_zip_map:
  "map fst (filter (\<lambda>(x, y). P y) (zip xs (map f xs))) = filter (\<lambda>x. P (f x)) xs"
  by (induction xs) auto

lemma smartDifference_eq:
  "smartDifference rules others (normalizeRules rules) (normalizeRules observed) =
     Inr (filter (\<lambda>rule. normalizeRule rule \<notin> normalizeRule ` set observed) rules)"
proof -
  have "smartLoop rules (makeSet (normalizeRules observed)) 0 (normalizeRules rules) [] =
      Inr ([] @ map fst (filter (\<lambda>(rule, item). \<not> makeSet (normalizeRules observed) item)
            (zip (drop 0 rules) (normalizeRules rules))))"
    by (rule smartLoop_eq) (simp add: normalizeRules_map)
  then show ?thesis
    by (simp add: smartDifference_def normalizeRules_map filter_zip_map makeSet_iff)
qed

section \<open>The appliers as functions of the host\<close>

lemma executeIptablesRule_eq: "executeIptablesRule = executeIp6tablesRule"
  by (intro ext) (simp add: executeIptablesRule_def executeIp6tablesRule_def)

lemma execute_cases:
  "executeIp6tablesRule h w rule =
     (if Fields rule = [] then (w, Some EmptyRule)
      else (w\<lparr>invoked := invoked w @ [Fields rule]\<rparr>,
            map_option CommandFailed (h (invoked w) (Fields rule))))"
  by (simp add: executeIp6tablesRule_def Let_def)

lemma failures_Cons:
  "failures (rule # rules) (out # outs) =
     (case out of None \<Rightarrow> failures rules outs | Some e \<Rightarrow> (rule, e) # failures rules outs)"
  by (simp add: failures_def List.map_filter_simps split: option.splits)

lemma failures_Nil [simp]: "failures [] outs = []"
  by (simp add: failures_def List.map_filter_simps)

lemma argvs_Cons:
  "argvs (rule # rules) = (if Fields rule = [] then argvs rules else Fields rule # argvs rules)"
  by (simp add: argvs_def)

lemma argvs_Nil [simp]: "argvs [] = []"
  by (simp add: argvs_def)

lemma argvs_append: "argvs (xs @ ys) = argvs xs @ argvs ys"
  by (simp add: argvs_def)


lemma addNewRules_world:
  "addNewRules h w rules failedRules =
     (\<lparr>invoked = invoked w @ argvs rules,
       printed = printed w @ map (\<lambda>(rule, err). AddError rule err)
         (failures rules (outcomes h (invoked w) rules))\<rparr>,
      failedRules @ map fst (failures rules (outcomes h (invoked w) rules)))"
proof (induction rules arbitrary: w failedRules)
  case Nil
  then show ?case by simp
next
  case (Cons rule rules)
  show ?case
    by (cases "h (invoked w) (Fields rule)")
      (simp_all add: Cons.IH execute_cases argvs_Cons failures_Cons)
qed

lemma natRemoveLoop_world:
  "natRemoveLoop q h w removeMap keys =
     \<lparr>invoked = invoked w @ argvs (map deleteForm (List.map_filter removeMap keys)),
      printed = printed w @
        (if q then []
         else map (\<lambda>(rule, err). RemoveWarning rule err)
           (failures (map deleteForm (List.map_filter removeMap keys))
              (outcomes h (invoked w) (map deleteForm (List.map_filter removeMap keys)))))\<rparr>"
proof (induction keys arbitrary: w)
  case Nil
  then show ?case by (simp add: List.map_filter_simps)
next
  case (Cons k keys)
  show ?case
  proof (cases "removeMap k")
    case None
    then show ?thesis by (simp add: Cons.IH List.map_filter_simps)
  next
    case (Some rule)
    then show ?thesis
      by (cases "h (invoked w) (Fields (deleteForm rule))")
        (simp_all add: Cons.IH execute_cases executeIptablesRule_eq Let_def
          deleteForm_def [symmetric] argvs_Cons failures_Cons List.map_filter_simps)
  qed
qed

lemma natAddLoop_all:
  "list_all (\<lambda>out. out = None) (outcomes h (invoked w) (List.map_filter addMap keys)) \<Longrightarrow>
   natAddLoop h w addMap keys =
     (w\<lparr>invoked := invoked w @ argvs (List.map_filter addMap keys)\<rparr>, None)"
proof (induction keys arbitrary: w)
  case Nil
  then show ?case by (simp add: List.map_filter_simps)
next
  case (Cons k keys)
  show ?case
  proof (cases "addMap k")
    case None
    with Cons show ?thesis by (simp add: List.map_filter_simps)
  next
    case (Some r)
    with Cons.prems have ok: "Fields r \<noteq> []" "h (invoked w) (Fields r) = None"
      and rest: "list_all (\<lambda>out. out = None)
        (outcomes h (invoked w @ [Fields r]) (List.map_filter addMap keys))"
      by (auto simp: List.map_filter_simps split: if_splits)
    from rest have "list_all (\<lambda>out. out = None)
        (outcomes h (invoked (w\<lparr>invoked := invoked w @ [Fields r]\<rparr>))
           (List.map_filter addMap keys))"
      by simp
    from Cons.IH [OF this] Some ok show ?thesis
      by (simp add: execute_cases executeIptablesRule_eq List.map_filter_simps argvs_Cons)
  qed
qed

lemma natAddLoop_stops:
  "List.map_filter addMap keys = pre @ r # post \<Longrightarrow>
   list_all (\<lambda>out. out = None) (outcomes h (invoked w) pre) \<Longrightarrow>
   outcomes h (invoked w @ argvs pre) [r] = [Some err] \<Longrightarrow>
   natAddLoop h w addMap keys =
     (w\<lparr>invoked := invoked w @ argvs (pre @ [r])\<rparr>, Some (AddRuleFailed r err))"
proof (induction keys arbitrary: w pre)
  case Nil
  then show ?case by (simp add: List.map_filter_simps)
next
  case (Cons k keys)
  show ?case
  proof (cases "addMap k")
    case None
    with Cons show ?thesis by (simp add: List.map_filter_simps)
  next
    case (Some x)
    with Cons.prems(1) have split: "x # List.map_filter addMap keys = pre @ r # post"
      by (simp add: List.map_filter_simps)
    show ?thesis
    proof (cases pre)
      case Nil
      with split have x: "x = r" by simp
      from Cons.prems(3) Nil show ?thesis
        by (auto simp: Some x execute_cases executeIptablesRule_eq argvs_Cons
            split: if_splits)
    next
      case (Cons y pre')
      with split have y: "y = x" and tail: "List.map_filter addMap keys = pre' @ r # post"
        by simp_all
      from Cons.prems(2) Cons y have ok: "Fields x \<noteq> []" "h (invoked w) (Fields x) = None"
        and rest: "list_all (\<lambda>out. out = None) (outcomes h (invoked w @ [Fields x]) pre')"
        by (auto split: if_splits)
      let ?w = "w\<lparr>invoked := invoked w @ [Fields x]\<rparr>"
      from rest have a: "list_all (\<lambda>out. out = None) (outcomes h (invoked ?w) pre')"
        by simp
      from Cons.prems(3) Cons y ok
      have b: "outcomes h (invoked ?w @ argvs pre') [r] = [Some err]"
        by (simp add: argvs_Cons)
      from Cons.IH [OF tail a b] Some ok Cons y show ?thesis
        by (simp add: execute_cases executeIptablesRule_eq argvs_Cons)
    qed
  qed
qed

lemma lastWithKey_alt:
  "lastWithKey key rules k =
     (if filter (\<lambda>rule. key rule = k) rules = [] then None
      else Some (last (filter (\<lambda>rule. key rule = k) rules)))"
  by (simp add: lastWithKey_def split: list.splits)

lemma lastWithKey_snoc:
  "lastWithKey key (rules @ [r]) k = (if key r = k then Some r else lastWithKey key rules k)"
  by (simp add: lastWithKey_alt)

lemma backMap_eq: "backMap (map key rules) rules = lastWithKey key rules"
proof (induction rules rule: rev_induct)
  case Nil
  then show ?case by (auto simp: backMap_def lastWithKey_def)
next
  case (snoc r rules)
  have "backMap (map key (rules @ [r])) (rules @ [r]) = (backMap (map key rules) rules)(key r \<mapsto> r)"
    by (simp add: backMap_def)
  with snoc show ?case
    by (auto simp: lastWithKey_snoc)
qed

section \<open>Diff correctness\<close>

text \<open>
  C1. For every desired and observed rule list, the diff of the netmap manager returns
  as rules to add exactly the desired rules whose normalized key is not the key of any
  observed rule, and as rules to remove exactly the observed rules whose key is not the
  key of any desired rule, both in list order; the rules to add, the rules to remove and
  the rules whose key occurs on both sides cover the two lists and are pairwise disjoint.
  The diff of the NAT manager works on the keys themselves and satisfies the same
  equations and the same partition.
\<close>

theorem C1_difference:
  "smartDifference desired observed (normalizeRules desired) (normalizeRules observed) =
     Inr (filter (\<lambda>rule. normalizeRule rule \<notin> normalizeRule ` set observed) desired) \<and>
   smartDifference observed desired (normalizeRules observed) (normalizeRules desired) =
     Inr (filter (\<lambda>rule. normalizeRule rule \<notin> normalizeRule ` set desired) observed) \<and>
   (let toAdd = filter (\<lambda>rule. normalizeRule rule \<notin> normalizeRule ` set observed) desired;
        toRemove = filter (\<lambda>rule. normalizeRule rule \<notin> normalizeRule ` set desired) observed;
        kept = filter (\<lambda>rule. normalizeRule rule \<in>
                        normalizeRule ` set desired \<inter> normalizeRule ` set observed)
                 (desired @ observed)
    in set toAdd \<union> set toRemove \<union> set kept = set desired \<union> set observed \<and>
       set toAdd \<inter> set toRemove = {} \<and> set toAdd \<inter> set kept = {} \<and>
       set toRemove \<inter> set kept = {}) \<and>
   difference desiredKeys observedKeys = filter (\<lambda>k. k \<notin> set observedKeys) desiredKeys \<and>
   difference observedKeys desiredKeys = filter (\<lambda>k. k \<notin> set desiredKeys) observedKeys \<and>
   set (difference desiredKeys observedKeys) \<union> set (difference observedKeys desiredKeys)
     \<union> (set desiredKeys \<inter> set observedKeys) = set desiredKeys \<union> set observedKeys \<and>
   set (difference desiredKeys observedKeys) \<inter> set (difference observedKeys desiredKeys) = {} \<and>
   set (difference desiredKeys observedKeys) \<inter> (set desiredKeys \<inter> set observedKeys) = {} \<and>
   set (difference observedKeys desiredKeys) \<inter> (set desiredKeys \<inter> set observedKeys) = {}"
proof -
  have part: "let toAdd = filter (\<lambda>rule. normalizeRule rule \<notin> normalizeRule ` set observed) desired;
        toRemove = filter (\<lambda>rule. normalizeRule rule \<notin> normalizeRule ` set desired) observed;
        kept = filter (\<lambda>rule. normalizeRule rule \<in>
                        normalizeRule ` set desired \<inter> normalizeRule ` set observed)
                 (desired @ observed)
    in set toAdd \<union> set toRemove \<union> set kept = set desired \<union> set observed \<and>
       set toAdd \<inter> set toRemove = {} \<and> set toAdd \<inter> set kept = {} \<and>
       set toRemove \<inter> set kept = {}"
    unfolding Let_def by auto
  have keys: "set (difference desiredKeys observedKeys) \<union> set (difference observedKeys desiredKeys)
     \<union> (set desiredKeys \<inter> set observedKeys) = set desiredKeys \<union> set observedKeys"
    "set (difference desiredKeys observedKeys) \<inter> set (difference observedKeys desiredKeys) = {}"
    "set (difference desiredKeys observedKeys) \<inter> (set desiredKeys \<inter> set observedKeys) = {}"
    "set (difference observedKeys desiredKeys) \<inter> (set desiredKeys \<inter> set observedKeys) = {}"
    by (auto simp: difference_eq)
  from part keys show ?thesis
    by (simp only: smartDifference_eq difference_eq [symmetric] simp_thms)
qed

theorem C1_difference_witness:
  "smartDifference
     [''ip6tables -t nat -A PREROUTING -i pub1 -d 2001:db8:1::25/96 -j NETMAP --to b30::20/96'',
      ''ip6tables -t nat -A POSTROUTING -o pub1 -s b30::20/96 -j NETMAP --to 2001:db8:1::25/96'']
     [''ip6tables -t nat -A POSTROUTING   -s b30::20/96 -o pub1 -j NETMAP --to 2001:db8:1::25/96'',
      ''ip6tables -t nat -A PREROUTING -i pub1 -d 2001:db8:9::1/96 -j NETMAP --to b30::99/96'']
     (normalizeRules
       [''ip6tables -t nat -A PREROUTING -i pub1 -d 2001:db8:1::25/96 -j NETMAP --to b30::20/96'',
        ''ip6tables -t nat -A POSTROUTING -o pub1 -s b30::20/96 -j NETMAP --to 2001:db8:1::25/96''])
     (normalizeRules
       [''ip6tables -t nat -A POSTROUTING   -s b30::20/96 -o pub1 -j NETMAP --to 2001:db8:1::25/96'',
        ''ip6tables -t nat -A PREROUTING -i pub1 -d 2001:db8:9::1/96 -j NETMAP --to b30::99/96''])
   = Inr [''ip6tables -t nat -A PREROUTING -i pub1 -d 2001:db8:1::25/96 -j NETMAP --to b30::20/96'']"
proof -
  let ?A = "''ip6tables -t nat -A PREROUTING -i pub1 -d 2001:db8:1::25/96 -j NETMAP --to b30::20/96''"
  let ?B = "''ip6tables -t nat -A POSTROUTING -o pub1 -s b30::20/96 -j NETMAP --to 2001:db8:1::25/96''"
  let ?B' = "''ip6tables -t nat -A POSTROUTING   -s b30::20/96 -o pub1 -j NETMAP --to 2001:db8:1::25/96''"
  let ?C = "''ip6tables -t nat -A PREROUTING -i pub1 -d 2001:db8:9::1/96 -j NETMAP --to b30::99/96''"
  have "filter (\<lambda>rule. normalizeRule rule \<notin> normalizeRule ` set [?B', ?C]) [?A, ?B] = [?A]"
    by code_simp
  with C1_difference [of "[?A, ?B]" "[?B', ?C]" "[]" "[]"] show ?thesis
    by (simp only:)
qed

section \<open>Properties of the appliers\<close>


lemma natAddLoop_invoked:
  "\<exists>n. invoked (fst (natAddLoop h w addMap keys)) =
        invoked w @ argvs (take n (List.map_filter addMap keys))"
proof (induction keys arbitrary: w)
  case Nil
  then show ?case by simp
next
  case (Cons k keys)
  show ?case
  proof (cases "addMap k")
    case None
    with Cons show ?thesis by (simp add: List.map_filter_simps)
  next
    case (Some r)
    show ?thesis
    proof (cases "Fields r \<noteq> [] \<and> h (invoked w) (Fields r) = None")
      case True
      from Cons.IH [of "w\<lparr>invoked := invoked w @ [Fields r]\<rparr>"] obtain n where
        "invoked (fst (natAddLoop h (w\<lparr>invoked := invoked w @ [Fields r]\<rparr>) addMap keys)) =
          invoked w @ [Fields r] @ argvs (take n (List.map_filter addMap keys))"
        by auto
      with Some True show ?thesis
        by (intro exI [of _ "Suc n"])
          (simp add: execute_cases executeIptablesRule_eq List.map_filter_simps argvs_Cons)
    next
      case False
      with Some show ?thesis
        by (intro exI [of _ "Suc 0"])
          (auto simp: execute_cases executeIptablesRule_eq List.map_filter_simps argvs_Cons)
    qed
  qed
qed

lemma applyRuleChanges_eq:
  "applyRuleChanges q h w currentRules newRules =
     natAddLoop h
       (natRemoveLoop q h w (lastWithKey natNormalizeRule currentRules)
          (filter (\<lambda>k. k \<notin> set (map natNormalizeRule newRules))
             (map natNormalizeRule currentRules)))
       (lastWithKey natNormalizeRule newRules)
       (filter (\<lambda>k. k \<notin> set (map natNormalizeRule currentRules))
          (map natNormalizeRule newRules))"
  by (simp add: applyRuleChanges_def Let_def backMap_eq difference_eq)

lemma lastWithKey_member:
  "r \<in> set rules \<Longrightarrow>
   lastWithKey key rules (key r) = Some (last (filter (\<lambda>x. key x = key r) rules))"
  by (auto simp: lastWithKey_alt filter_empty_conv)

lemma map_filter_lastWithKey:
  "set ys \<subseteq> set rules \<Longrightarrow>
   List.map_filter (lastWithKey key rules) (map key ys) =
     map (\<lambda>r. last (filter (\<lambda>x. key x = key r) rules)) ys"
  by (induction ys) (simp_all add: List.map_filter_simps lastWithKey_member)

lemma back_rules:
  "List.map_filter (lastWithKey key rules) (filter P (map key rules)) =
     map (\<lambda>r. last (filter (\<lambda>x. key x = key r) rules)) (filter (\<lambda>r. P (key r)) rules)"
proof -
  have "filter P (map key rules) = map key (filter (\<lambda>r. P (key r)) rules)"
    by (simp add: filter_map comp_def)
  then show ?thesis
    by (simp add: map_filter_lastWithKey)
qed

lemma executeNetmapChanges_eq:
  "executeNetmapChanges h w toRemove toAdd =
     (let w1 = removeOldRules h w toRemove;
          failed = failures toAdd (outcomes h (invoked w1) toAdd)
      in (\<lparr>invoked = invoked w1 @ argvs toAdd,
           printed = printed w1 @ map (\<lambda>(rule, err). AddError rule err) failed\<rparr>,
          if failed = [] then None
          else Some (AddNetmapRulesFailed (length failed) (length toAdd))))"
  by (simp add: executeNetmapChanges_def Let_def addNewRules_world)

text \<open>
  C2 (amended). The key of a rule with fewer than 6 fields is the rule text itself. The
  key of a rule with at least 6 fields is built from the parsed fields alone, in the
  order chain (lower case), direction, interface, source, destination, target (lower
  case), target argument, separated by vertical bars: both addresses are part of it. So
  two rules with at least 6 fields whose parsed fields agree (chain and target up to case)
  have the same key, and so have two rules with the same fields, whatever the white space
  between them.
\<close>

theorem C2_normalizeRule:
  "(length (Fields rule) < 6 \<longrightarrow> normalizeRule rule = rule) \<and>
   (6 \<le> length (Fields rule) \<longrightarrow>
      normalizeRule rule =
        (let f = parseParts (Fields rule) noFields in
         ToLower (pChain f) @ ''|'' @ pDirection f @ ''|'' @ pIface f @ ''|'' @ pSource f
           @ ''|'' @ pDest f @ ''|'' @ ToLower (pTarget f) @ ''|'' @ pToAddr f)) \<and>
   (6 \<le> length (Fields rule) \<and> 6 \<le> length (Fields rule') \<and>
    (let f = parseParts (Fields rule) noFields; f' = parseParts (Fields rule') noFields in
     ToLower (pChain f) = ToLower (pChain f') \<and> pDirection f = pDirection f' \<and>
     pIface f = pIface f' \<and> pSource f = pSource f' \<and> pDest f = pDest f' \<and>
     ToLower (pTarget f) = ToLower (pTarget f') \<and> pToAddr f = pToAddr f') \<longrightarrow>
      normalizeRule rule = normalizeRule rule') \<and>
   (6 \<le> length (Fields rule) \<and> Fields rule = Fields rule' \<longrightarrow>
      normalizeRule rule = normalizeRule rule')"
  by (auto simp: normalizeRule_def formatKey_def Let_def)

theorem C2_normalizeRule_witness:
  "normalizeRule ''ip6tables -A PREROUTING -j NETMAP'' = ''ip6tables -A PREROUTING -j NETMAP'' \<and>
   normalizeRule ''ip6tables -t nat -A PREROUTING -i pub1 -d 2001:db8::1 -j NETMAP --to fd00::1''
     = ''prerouting|input|pub1||2001:db8::1|netmap|fd00::1'' \<and>
   normalizeRule ''ip6tables  -t nat -A prerouting -d 2001:db8::1 -i pub1 --to fd00::1 -j netmap''
     = normalizeRule ''ip6tables -t nat -A PREROUTING -i pub1 -d 2001:db8::1 -j NETMAP --to fd00::1'' \<and>
   normalizeRule ''ip6tables -t nat -A PREROUTING -i pub1   -d 2001:db8::1 -j NETMAP --to fd00::1 ''
     = normalizeRule ''ip6tables -t nat -A PREROUTING -i pub1 -d 2001:db8::1 -j NETMAP --to fd00::1''"
proof -
  let ?s = "''ip6tables -A PREROUTING -j NETMAP''"
  let ?r = "''ip6tables -t nat -A PREROUTING -i pub1 -d 2001:db8::1 -j NETMAP --to fd00::1''"
  let ?p = "''ip6tables  -t nat -A prerouting -d 2001:db8::1 -i pub1 --to fd00::1 -j netmap''"
  let ?w = "''ip6tables -t nat -A PREROUTING -i pub1   -d 2001:db8::1 -j NETMAP --to fd00::1 ''"
  have short: "length (Fields ?s) < 6" by code_simp
  have long: "6 \<le> length (Fields ?r)" "6 \<le> length (Fields ?p)" "6 \<le> length (Fields ?w)"
    by code_simp+
  have key: "(let f = parseParts (Fields ?r) noFields in
         ToLower (pChain f) @ ''|'' @ pDirection f @ ''|'' @ pIface f @ ''|'' @ pSource f
           @ ''|'' @ pDest f @ ''|'' @ ToLower (pTarget f) @ ''|'' @ pToAddr f)
      = ''prerouting|input|pub1||2001:db8::1|netmap|fd00::1''"
    by code_simp
  have same: "let f = parseParts (Fields ?p) noFields; f' = parseParts (Fields ?r) noFields in
     ToLower (pChain f) = ToLower (pChain f') \<and> pDirection f = pDirection f' \<and>
     pIface f = pIface f' \<and> pSource f = pSource f' \<and> pDest f = pDest f' \<and>
     ToLower (pTarget f) = ToLower (pTarget f') \<and> pToAddr f = pToAddr f'"
    by code_simp
  have fields: "Fields ?w = Fields ?r" by code_simp
  from C2_normalizeRule [of ?s ?s] short have 1: "normalizeRule ?s = ?s" by blast
  from C2_normalizeRule [of ?r ?r] long key
  have 2: "normalizeRule ?r = ''prerouting|input|pub1||2001:db8::1|netmap|fd00::1''"
    by (simp only:)
  from C2_normalizeRule [of ?p ?r] long same have 3: "normalizeRule ?p = normalizeRule ?r"
    by blast
  from C2_normalizeRule [of ?w ?r] long fields have 4: "normalizeRule ?w = normalizeRule ?r"
    by blast
  from 1 2 3 4 show ?thesis by blast
qed

text \<open>
  C2 as stated fails: an inbound rule and the same rule with a source match added give
  the same tuple of chain, direction, interface, destination, target and argument, but
  different keys, because the key holds the source as well; and the key of a rule with
  fewer than 6 fields is its raw text.
\<close>

theorem C2_counterexample:
  "specTuple (parseParts
      (Fields ''ip6tables -t nat -A PREROUTING -i pub1 -d 2001:db8::1 -j NETMAP --to fd00::1'')
      noFields)
   = specTuple (parseParts
      (Fields ''ip6tables -t nat -A PREROUTING -i pub1 -s fd00::9 -d 2001:db8::1 -j NETMAP --to fd00::1'')
      noFields) \<and>
   normalizeRule ''ip6tables -t nat -A PREROUTING -i pub1 -d 2001:db8::1 -j NETMAP --to fd00::1''
     = ''prerouting|input|pub1||2001:db8::1|netmap|fd00::1'' \<and>
   normalizeRule ''ip6tables -t nat -A PREROUTING -i pub1 -s fd00::9 -d 2001:db8::1 -j NETMAP --to fd00::1''
     = ''prerouting|input|pub1|fd00::9|2001:db8::1|netmap|fd00::1'' \<and>
   normalizeRule ''ip6tables -A PREROUTING -j NETMAP'' = ''ip6tables -A PREROUTING -j NETMAP''"
  by code_simp


text \<open>
  C4 (amended). The executor of the netmap manager attempts every rule to add, prints one
  error for each that failed, and returns no error when none failed and otherwise one
  error that names the number of failed rules and the number of rules to add. The
  addition loop of the NAT manager returns no error when every rule succeeds, having run
  them all; when a rule fails after the rules before it succeeded, it returns at once
  with an error that names that rule and its failure, and runs none of the rules after
  it.
\<close>

theorem C4_add_failures:
  "executeNetmapChanges h w toRemove toAdd =
     (let w1 = removeOldRules h w toRemove;
          failed = failures toAdd (outcomes h (invoked w1) toAdd)
      in (\<lparr>invoked = invoked w1 @ argvs toAdd,
           printed = printed w1 @ map (\<lambda>(rule, err). AddError rule err) failed\<rparr>,
          if failed = [] then None
          else Some (AddNetmapRulesFailed (length failed) (length toAdd)))) \<and>
   (list_all (\<lambda>out. out = None) (outcomes h (invoked w) (List.map_filter addMap keys)) \<longrightarrow>
      natAddLoop h w addMap keys =
        (w\<lparr>invoked := invoked w @ argvs (List.map_filter addMap keys)\<rparr>, None)) \<and>
   (List.map_filter addMap keys = pre @ r # post \<and>
    list_all (\<lambda>out. out = None) (outcomes h (invoked w) pre) \<and>
    outcomes h (invoked w @ argvs pre) [r] = [Some err] \<longrightarrow>
      natAddLoop h w addMap keys =
        (w\<lparr>invoked := invoked w @ argvs (pre @ [r])\<rparr>, Some (AddRuleFailed r err)))"
  using executeNetmapChanges_eq [of h w toRemove toAdd] natAddLoop_all [of h w addMap keys]
    natAddLoop_stops [of addMap keys pre r post h w err]
  by blast

text \<open>
  C10 (amended). The map from a normalized key back to a rule text holds, for each key,
  the last rule of the list with that key. The rules to add and to remove keep one entry
  for every rule of the list whose key is missing on the other side, duplicates
  included, and each entry is executed with the text of the last rule that has its key:
  the commands run are the delete forms of those entries of the current rules, then an
  initial part of those of the new rules, and all of them when every addition succeeds.
  So the text of an earlier rule with a duplicate key is used only if it is also the text
  of the last one, and a key that occurs n times gives n commands.
\<close>

theorem C10_backMap:
  "backMap (map natNormalizeRule rules) rules k =
     (case filter (\<lambda>rule. natNormalizeRule rule = k) rules of
        [] \<Rightarrow> None | r # rs \<Rightarrow> Some (last (r # rs))) \<and>
   (let removed = map (\<lambda>rule. last (filter (\<lambda>x. natNormalizeRule x = natNormalizeRule rule)
                                   currentRules))
          (filter (\<lambda>rule. natNormalizeRule rule \<notin> natNormalizeRule ` set newRules)
             currentRules);
        added = map (\<lambda>rule. last (filter (\<lambda>x. natNormalizeRule x = natNormalizeRule rule)
                                 newRules))
          (filter (\<lambda>rule. natNormalizeRule rule \<notin> natNormalizeRule ` set currentRules)
             newRules)
    in (\<exists>n. invoked (fst (applyRuleChanges QuietMode h w currentRules newRules)) =
          invoked w @ argvs (map deleteForm removed) @ argvs (take n added)) \<and>
       (list_all (\<lambda>out. out = None)
          (outcomes h (invoked w @ argvs (map deleteForm removed)) added) \<longrightarrow>
        invoked (fst (applyRuleChanges QuietMode h w currentRules newRules)) =
          invoked w @ argvs (map deleteForm removed) @ argvs added))"
proof -
  let ?key = natNormalizeRule
  let ?removed = "map (\<lambda>rule. last (filter (\<lambda>x. ?key x = ?key rule) currentRules))
          (filter (\<lambda>rule. ?key rule \<notin> ?key ` set newRules) currentRules)"
  let ?added = "map (\<lambda>rule. last (filter (\<lambda>x. ?key x = ?key rule) newRules))
          (filter (\<lambda>rule. ?key rule \<notin> ?key ` set currentRules) newRules)"
  let ?addKeys = "filter (\<lambda>k. k \<notin> set (map ?key currentRules)) (map ?key newRules)"
  have r: "List.map_filter (lastWithKey ?key currentRules)
      (filter (\<lambda>k. k \<notin> set (map ?key newRules)) (map ?key currentRules)) = ?removed"
    by (simp add: back_rules)
  have a: "List.map_filter (lastWithKey ?key newRules) ?addKeys = ?added"
    by (simp add: back_rules)
  have m: "backMap (map ?key rules) rules k =
     (case filter (\<lambda>rule. ?key rule = k) rules of [] \<Rightarrow> None | r # rs \<Rightarrow> Some (last (r # rs)))"
    by (simp add: backMap_eq lastWithKey_def)
  let ?w1 = "natRemoveLoop QuietMode h w (lastWithKey ?key currentRules)
          (filter (\<lambda>k. k \<notin> set (map ?key newRules)) (map ?key currentRules))"
  have w1: "invoked ?w1 = invoked w @ argvs (map deleteForm ?removed)"
    by (simp only: natRemoveLoop_world r world.simps)
  have ex: "\<exists>n. invoked (fst (applyRuleChanges QuietMode h w currentRules newRules)) =
          invoked w @ argvs (map deleteForm ?removed) @ argvs (take n ?added)"
    using natAddLoop_invoked [of h ?w1 "lastWithKey ?key newRules" ?addKeys]
    by (simp only: applyRuleChanges_eq a w1 append_assoc)
  have all: "list_all (\<lambda>out. out = None)
          (outcomes h (invoked w @ argvs (map deleteForm ?removed)) ?added) \<Longrightarrow>
        invoked (fst (applyRuleChanges QuietMode h w currentRules newRules)) =
          invoked w @ argvs (map deleteForm ?removed) @ argvs ?added"
  proof -
    assume "list_all (\<lambda>out. out = None)
          (outcomes h (invoked w @ argvs (map deleteForm ?removed)) ?added)"
    then have "list_all (\<lambda>out. out = None)
        (outcomes h (invoked ?w1) (List.map_filter (lastWithKey ?key newRules) ?addKeys))"
      by (simp only: a w1)
    from natAddLoop_all [OF this]
    have "invoked (fst (natAddLoop h ?w1 (lastWithKey ?key newRules) ?addKeys)) =
        invoked ?w1 @ argvs (List.map_filter (lastWithKey ?key newRules) ?addKeys)"
      by simp
    then show ?thesis
      by (simp only: applyRuleChanges_eq a w1 append_assoc)
  qed
  from m ex all show ?thesis
    unfolding Let_def by blast
qed



text \<open>
  C4 as stated fails for the NAT manager: when the first of two rules to add fails, the
  second is never attempted, and the error names the failed rule, not a count.
\<close>

theorem C4_counterexample:
  "applyRuleChanges False (\<lambda>hist argv. Some ''exit status 1'') \<lparr>invoked = [], printed = []\<rparr> []
     [''iptables -t nat -A POSTROUTING -o eth0 -j MASQUERADE'',
      ''iptables -t nat -A POSTROUTING -s 10.24.0.0/16 -o eth0 -j MASQUERADE'']
   = (\<lparr>invoked = [[''iptables'', ''-t'', ''nat'', ''-A'', ''POSTROUTING'', ''-o'', ''eth0'', ''-j'',
                     ''MASQUERADE'']],
       printed = []\<rparr>,
      Some (AddRuleFailed ''iptables -t nat -A POSTROUTING -o eth0 -j MASQUERADE''
              (CommandFailed ''exit status 1'')))"
  by code_simp

text \<open>
  C10 as stated fails where it says that at most one command is run for a key: two
  desired rules with the same key and no observed rule make the applier run the text of
  the second rule twice.
\<close>

theorem C10_counterexample:
  "natNormalizeRule ''iptables -t nat -A POSTROUTING -s anywhere -o eth0 -j MASQUERADE''
     = natNormalizeRule ''iptables -t nat -A POSTROUTING -s 0.0.0.0/0 -o eth0 -j MASQUERADE'' \<and>
   applyRuleChanges False (\<lambda>hist argv. None) \<lparr>invoked = [], printed = []\<rparr> []
     [''iptables -t nat -A POSTROUTING -s anywhere -o eth0 -j MASQUERADE'',
      ''iptables -t nat -A POSTROUTING -s 0.0.0.0/0 -o eth0 -j MASQUERADE'']
   = (\<lparr>invoked = [[''iptables'', ''-t'', ''nat'', ''-A'', ''POSTROUTING'', ''-s'', ''0.0.0.0/0'',
                     ''-o'', ''eth0'', ''-j'', ''MASQUERADE''],
                    [''iptables'', ''-t'', ''nat'', ''-A'', ''POSTROUTING'', ''-s'', ''0.0.0.0/0'',
                     ''-o'', ''eth0'', ''-j'', ''MASQUERADE'']],
       printed = []\<rparr>, None)"
  by code_simp

theorem C4_add_failures_witness:
  "executeNetmapChanges (\<lambda>hist argv. Some ''exit status 1'') \<lparr>invoked = [], printed = []\<rparr> []
     [''ip6tables -t nat -A POSTROUTING -o pub1 -s b30::20/96 -j NETMAP --to 2001:db8:1::25/96'',
      ''ip6tables -t nat -A PREROUTING -i pub1 -d 2001:db8:1::25/96 -j NETMAP --to b30::20/96'']
   = (\<lparr>invoked =
         [[''ip6tables'', ''-t'', ''nat'', ''-A'', ''POSTROUTING'', ''-o'', ''pub1'', ''-s'',
           ''b30::20/96'', ''-j'', ''NETMAP'', ''--to'', ''2001:db8:1::25/96''],
          [''ip6tables'', ''-t'', ''nat'', ''-A'', ''PREROUTING'', ''-i'', ''pub1'', ''-d'',
           ''2001:db8:1::25/96'', ''-j'', ''NETMAP'', ''--to'', ''b30::20/96'']],
       printed =
         [AddError
            ''ip6tables -t nat -A POSTROUTING -o pub1 -s b30::20/96 -j NETMAP --to 2001:db8:1::25/96''
            (CommandFailed ''exit status 1''),
          AddError
            ''ip6tables -t nat -A PREROUTING -i pub1 -d 2001:db8:1::25/96 -j NETMAP --to b30::20/96''
            (CommandFailed ''exit status 1'')]\<rparr>,
      Some (AddNetmapRulesFailed 2 2)) \<and>
   natAddLoop (\<lambda>hist argv. None) \<lparr>invoked = [], printed = []\<rparr>
     [''a'' \<mapsto> ''iptables -t nat -A POSTROUTING -o eth0 -j MASQUERADE'',
      ''b'' \<mapsto> ''iptables -t nat -A POSTROUTING -s 10.24.0.0/16 -o eth0 -j MASQUERADE'']
     [''a'', ''b'']
   = (\<lparr>invoked =
         [[''iptables'', ''-t'', ''nat'', ''-A'', ''POSTROUTING'', ''-o'', ''eth0'', ''-j'',
           ''MASQUERADE''],
          [''iptables'', ''-t'', ''nat'', ''-A'', ''POSTROUTING'', ''-s'', ''10.24.0.0/16'', ''-o'',
           ''eth0'', ''-j'', ''MASQUERADE'']],
       printed = []\<rparr>, None) \<and>
   natAddLoop (\<lambda>hist argv. if hist = [] then None else Some ''exit status 2'')
     \<lparr>invoked = [], printed = []\<rparr>
     [''a'' \<mapsto> ''iptables -t nat -A POSTROUTING -o eth0 -j MASQUERADE'',
      ''b'' \<mapsto> ''iptables -t nat -A POSTROUTING -s 10.24.0.0/16 -o eth0 -j MASQUERADE'',
      ''c'' \<mapsto> ''iptables -t nat -A POSTROUTING -s 10.25.0.0/16 -o eth0 -j MASQUERADE'']
     [''a'', ''b'', ''c'']
   = (\<lparr>invoked =
         [[''iptables'', ''-t'', ''nat'', ''-A'', ''POSTROUTING'', ''-o'', ''eth0'', ''-j'',
           ''MASQUERADE''],
          [''iptables'', ''-t'', ''nat'', ''-A'', ''POSTROUTING'', ''-s'', ''10.24.0.0/16'', ''-o'',
           ''eth0'', ''-j'', ''MASQUERADE'']],
       printed = []\<rparr>,
      Some (AddRuleFailed ''iptables -t nat -A POSTROUTING -s 10.24.0.0/16 -o eth0 -j MASQUERADE''
              (CommandFailed ''exit status 2'')))"
proof -
  let ?fail = "\<lambda>(hist :: string list list) (argv :: string list). Some ''exit status 1''"
  let ?ok = "\<lambda>(hist :: string list list) (argv :: string list). None :: string option"
  let ?second = "\<lambda>(hist :: string list list) (argv :: string list).
      if hist = [] then None else Some ''exit status 2''"
  let ?w = "\<lparr>invoked = [], printed = []\<rparr>"
  let ?P = "''ip6tables -t nat -A POSTROUTING -o pub1 -s b30::20/96 -j NETMAP --to 2001:db8:1::25/96''"
  let ?Q = "''ip6tables -t nat -A PREROUTING -i pub1 -d 2001:db8:1::25/96 -j NETMAP --to b30::20/96''"
  let ?a = "''iptables -t nat -A POSTROUTING -o eth0 -j MASQUERADE''"
  let ?b = "''iptables -t nat -A POSTROUTING -s 10.24.0.0/16 -o eth0 -j MASQUERADE''"
  let ?c = "''iptables -t nat -A POSTROUTING -s 10.25.0.0/16 -o eth0 -j MASQUERADE''"
  let ?m2 = "[''a'' \<mapsto> ?a, ''b'' \<mapsto> ?b]"
  let ?m3 = "[''a'' \<mapsto> ?a, ''b'' \<mapsto> ?b, ''c'' \<mapsto> ?c]"
  let ?fP = "[''ip6tables'', ''-t'', ''nat'', ''-A'', ''POSTROUTING'', ''-o'', ''pub1'', ''-s'',
           ''b30::20/96'', ''-j'', ''NETMAP'', ''--to'', ''2001:db8:1::25/96'']"
  let ?fQ = "[''ip6tables'', ''-t'', ''nat'', ''-A'', ''PREROUTING'', ''-i'', ''pub1'', ''-d'',
           ''2001:db8:1::25/96'', ''-j'', ''NETMAP'', ''--to'', ''b30::20/96'']"
  let ?fa = "[''iptables'', ''-t'', ''nat'', ''-A'', ''POSTROUTING'', ''-o'', ''eth0'', ''-j'',
           ''MASQUERADE'']"
  let ?fb = "[''iptables'', ''-t'', ''nat'', ''-A'', ''POSTROUTING'', ''-s'', ''10.24.0.0/16'', ''-o'',
           ''eth0'', ''-j'', ''MASQUERADE'']"
  have e1: "(let w1 = removeOldRules ?fail ?w [];
          failed = failures [?P, ?Q] (outcomes ?fail (invoked w1) [?P, ?Q])
      in (\<lparr>invoked = invoked w1 @ argvs [?P, ?Q],
           printed = printed w1 @ map (\<lambda>(rule, err). AddError rule err) failed\<rparr>,
          if failed = [] then None
          else Some (AddNetmapRulesFailed (length failed) (length [?P, ?Q]))))
    = (\<lparr>invoked = [?fP, ?fQ],
        printed = [AddError ?P (CommandFailed ''exit status 1''),
                   AddError ?Q (CommandFailed ''exit status 1'')]\<rparr>,
       Some (AddNetmapRulesFailed 2 2))"
    by code_simp
  from C4_add_failures [of ?fail ?w "[]" "[?P, ?Q]" ?m2 "[]" "[]" ?a "[]" EmptyRule] e1
  have 1: "executeNetmapChanges ?fail ?w [] [?P, ?Q]
    = (\<lparr>invoked = [?fP, ?fQ],
        printed = [AddError ?P (CommandFailed ''exit status 1''),
                   AddError ?Q (CommandFailed ''exit status 1'')]\<rparr>,
       Some (AddNetmapRulesFailed 2 2))"
    by (simp only:)
  have ok2: "list_all (\<lambda>out. out = None)
      (outcomes ?ok (invoked ?w) (List.map_filter ?m2 [''a'', ''b'']))"
    by code_simp
  have e2: "(?w\<lparr>invoked := invoked ?w @ argvs (List.map_filter ?m2 [''a'', ''b''])\<rparr>,
             None :: error option)
    = (\<lparr>invoked = [?fa, ?fb], printed = []\<rparr>, None)"
    by code_simp
  from C4_add_failures [of ?ok ?w "[]" "[]" ?m2 "[''a'', ''b'']" "[]" ?a "[]" EmptyRule] ok2
  have "natAddLoop ?ok ?w ?m2 [''a'', ''b''] =
        (?w\<lparr>invoked := invoked ?w @ argvs (List.map_filter ?m2 [''a'', ''b''])\<rparr>, None)"
    by blast
  with e2 have 2: "natAddLoop ?ok ?w ?m2 [''a'', ''b''] =
      (\<lparr>invoked = [?fa, ?fb], printed = []\<rparr>, None)"
    by (simp only:)
  have m3: "List.map_filter ?m3 [''a'', ''b'', ''c''] = [?a] @ ?b # [?c]"
    by code_simp
  have pre: "list_all (\<lambda>out. out = None) (outcomes ?second (invoked ?w) [?a])"
    by code_simp
  have st: "outcomes ?second (invoked ?w @ argvs [?a]) [?b] = [Some (CommandFailed ''exit status 2'')]"
    by code_simp
  have e3: "(?w\<lparr>invoked := invoked ?w @ argvs ([?a] @ [?b])\<rparr>,
         Some (AddRuleFailed ?b (CommandFailed ''exit status 2'')))
    = (\<lparr>invoked = [?fa, ?fb], printed = []\<rparr>,
       Some (AddRuleFailed ?b (CommandFailed ''exit status 2'')))"
    by code_simp
  from C4_add_failures [of ?second ?w "[]" "[]" ?m3 "[''a'', ''b'', ''c'']" "[?a]" ?b "[?c]"
      "CommandFailed ''exit status 2''"] m3 pre st
  have "natAddLoop ?second ?w ?m3 [''a'', ''b'', ''c''] =
        (?w\<lparr>invoked := invoked ?w @ argvs ([?a] @ [?b])\<rparr>,
         Some (AddRuleFailed ?b (CommandFailed ''exit status 2'')))"
    by blast
  with e3 have 3: "natAddLoop ?second ?w ?m3 [''a'', ''b'', ''c''] =
      (\<lparr>invoked = [?fa, ?fb], printed = []\<rparr>,
       Some (AddRuleFailed ?b (CommandFailed ''exit status 2'')))"
    by (simp only:)
  from 1 2 3 show ?thesis
    by (intro conjI)
qed

theorem C10_backMap_witness:
  "backMap
     (map natNormalizeRule
        [''iptables -t nat -A POSTROUTING -s anywhere -o eth0 -j MASQUERADE'',
         ''iptables -t nat -A POSTROUTING  -s 0.0.0.0/0  -o eth0 -j MASQUERADE''])
     [''iptables -t nat -A POSTROUTING -s anywhere -o eth0 -j MASQUERADE'',
      ''iptables -t nat -A POSTROUTING  -s 0.0.0.0/0  -o eth0 -j MASQUERADE'']
     ''iptables -t nat -A POSTROUTING -s 0.0.0.0/0 -o eth0 -j MASQUERADE''
   = Some ''iptables -t nat -A POSTROUTING  -s 0.0.0.0/0  -o eth0 -j MASQUERADE'' \<and>
   invoked (fst (applyRuleChanges False (\<lambda>hist argv. None) \<lparr>invoked = [], printed = []\<rparr>
     [''iptables -t nat -A POSTROUTING -o eth1 -j MASQUERADE'']
     [''iptables -t nat -A POSTROUTING -s anywhere -o eth0 -j MASQUERADE'',
      ''iptables -t nat -A POSTROUTING  -s 0.0.0.0/0  -o eth0 -j MASQUERADE'']))
   = [[''iptables'', ''-t'', ''nat'', ''-D'', ''POSTROUTING'', ''-o'', ''eth1'', ''-j'', ''MASQUERADE''],
      [''iptables'', ''-t'', ''nat'', ''-A'', ''POSTROUTING'', ''-s'', ''0.0.0.0/0'', ''-o'', ''eth0'',
       ''-j'', ''MASQUERADE''],
      [''iptables'', ''-t'', ''nat'', ''-A'', ''POSTROUTING'', ''-s'', ''0.0.0.0/0'', ''-o'', ''eth0'',
       ''-j'', ''MASQUERADE'']]"
proof -
  let ?ok = "\<lambda>(hist :: string list list) (argv :: string list). None :: string option"
  let ?w = "\<lparr>invoked = [], printed = []\<rparr>"
  let ?a = "''iptables -t nat -A POSTROUTING -s anywhere -o eth0 -j MASQUERADE''"
  let ?b = "''iptables -t nat -A POSTROUTING  -s 0.0.0.0/0  -o eth0 -j MASQUERADE''"
  let ?k = "''iptables -t nat -A POSTROUTING -s 0.0.0.0/0 -o eth0 -j MASQUERADE''"
  let ?s = "''iptables -t nat -A POSTROUTING -o eth1 -j MASQUERADE''"
  let ?removed = "map (\<lambda>rule. last (filter (\<lambda>x. natNormalizeRule x = natNormalizeRule rule) [?s]))
          (filter (\<lambda>rule. natNormalizeRule rule \<notin> natNormalizeRule ` set [?a, ?b]) [?s])"
  let ?added = "map (\<lambda>rule. last (filter (\<lambda>x. natNormalizeRule x = natNormalizeRule rule) [?a, ?b]))
          (filter (\<lambda>rule. natNormalizeRule rule \<notin> natNormalizeRule ` set [?s]) [?a, ?b])"
  note t = C10_backMap [of "[?a, ?b]" ?k "[?s]" "[?a, ?b]" False ?ok ?w, unfolded Let_def]
  have e1: "(case filter (\<lambda>rule. natNormalizeRule rule = ?k) [?a, ?b] of
        [] \<Rightarrow> None | r # rs \<Rightarrow> Some (last (r # rs))) = Some ?b"
    by code_simp
  from t e1 have 1: "backMap (map natNormalizeRule [?a, ?b]) [?a, ?b] ?k = Some ?b"
    by (simp only:)
  have ok: "list_all (\<lambda>out. out = None)
      (outcomes ?ok (invoked ?w @ argvs (map deleteForm ?removed)) ?added)"
    by code_simp
  have e2: "invoked ?w @ argvs (map deleteForm ?removed) @ argvs ?added
    = [[''iptables'', ''-t'', ''nat'', ''-D'', ''POSTROUTING'', ''-o'', ''eth1'', ''-j'', ''MASQUERADE''],
      [''iptables'', ''-t'', ''nat'', ''-A'', ''POSTROUTING'', ''-s'', ''0.0.0.0/0'', ''-o'', ''eth0'',
       ''-j'', ''MASQUERADE''],
      [''iptables'', ''-t'', ''nat'', ''-A'', ''POSTROUTING'', ''-s'', ''0.0.0.0/0'', ''-o'', ''eth0'',
       ''-j'', ''MASQUERADE'']]"
    by code_simp
  from t ok have "invoked (fst (applyRuleChanges False ?ok ?w [?s] [?a, ?b])) =
      invoked ?w @ argvs (map deleteForm ?removed) @ argvs ?added"
    by blast
  with e2 have 2: "invoked (fst (applyRuleChanges False ?ok ?w [?s] [?a, ?b]))
    = [[''iptables'', ''-t'', ''nat'', ''-D'', ''POSTROUTING'', ''-o'', ''eth1'', ''-j'', ''MASQUERADE''],
      [''iptables'', ''-t'', ''nat'', ''-A'', ''POSTROUTING'', ''-s'', ''0.0.0.0/0'', ''-o'', ''eth0'',
       ''-j'', ''MASQUERADE''],
      [''iptables'', ''-t'', ''nat'', ''-A'', ''POSTROUTING'', ''-s'', ''0.0.0.0/0'', ''-o'', ''eth0'',
       ''-j'', ''MASQUERADE'']]"
    by (simp only:)
  from 1 2 show ?thesis by (intro conjI)
qed

end
